theory Spec2Isabelle
  imports Complex_Main "HOL-Library.Word"
begin

section \<open>Progress mapping\<close>

text \<open>
  JavaScript numbers are doubles; the model computes with exact rationals, and
  \<open>Math.round\<close> rounds to the nearest integer with halves going up.  The mapper is
  called on step counts read from a run of digits.  For such an input the exact percentage
  is \<open>10 + (255 - c) / 3\<close> for an integer \<open>c\<close>, at least one sixth away from every
  point where the rounding changes, which is far more than the error of the three double
  operations: the rounded results of the source and of the model are the same.
\<close>

definition TOTAL_STEPS :: int where
  "TOTAL_STEPS = 255"

definition INIT_PROGRESS :: int where
  "INIT_PROGRESS = 10"

definition R_DONE_PROGRESS :: int where
  "R_DONE_PROGRESS = 95"

definition math_round :: "rat \<Rightarrow> int" where
  "math_round x = \<lfloor>x + 1 / 2\<rfloor>"

definition clamp01to100 :: "rat \<Rightarrow> int" where
  "clamp01to100 n = max 0 (min 100 (math_round n))"

text \<open>The result object \<open>{progress, stepsTotal}\<close> is the pair of its two fields.\<close>

definition progressFromRemaining :: "rat \<Rightarrow> int \<times> int" where
  "progressFromRemaining rem =
     (let clamped = max 0 (min TOTAL_STEPS (math_round rem));
          ratio = rat_of_int (TOTAL_STEPS - clamped) / rat_of_int TOTAL_STEPS;
          pct = rat_of_int INIT_PROGRESS
                + ratio * rat_of_int (R_DONE_PROGRESS - INIT_PROGRESS)
      in (clamp01to100 pct, TOTAL_STEPS))"

section \<open>Text and regular expressions\<close>

text \<open>
  A JavaScript string is a sequence of code units; the model takes the code units below
  256, one \<open>char\<close> each.  The character classes are those of the regular expression
  engine: \<open>\d\<close>, \<open>\w\<close> and \<open>\s\<close> (the white space and line terminators below 256), and
  the case folding of the \<open>i\<close> flag, which relates only a letter and its other case.
\<close>

definition is_digit :: "char \<Rightarrow> bool" where
  "is_digit c = (c \<in> set ''0123456789'')"

definition is_word :: "char \<Rightarrow> bool" where
  "is_word c = (c \<in> set ''abcdefghijklmnopqrstuvwxyzABCDEFGHIJKLMNOPQRSTUVWXYZ0123456789_'')"

definition is_space :: "char \<Rightarrow> bool" where
  "is_space c = (c \<in> set [CHR 0x09, CHR 0x0A, CHR 0x0B, CHR 0x0C, CHR 0x0D, CHR 0x20, CHR 0xA0])"

definition to_upper :: "char \<Rightarrow> char" where
  "to_upper c = (case map_of (zip ''abcdefghijklmnopqrstuvwxyz'' ''ABCDEFGHIJKLMNOPQRSTUVWXYZ'') c of
                   None \<Rightarrow> c | Some u \<Rightarrow> u)"

definition to_lower :: "char \<Rightarrow> char" where
  "to_lower c = (case map_of (zip ''ABCDEFGHIJKLMNOPQRSTUVWXYZ'' ''abcdefghijklmnopqrstuvwxyz'') c of
                   None \<Rightarrow> c | Some l \<Rightarrow> l)"

text \<open>The bracket expressions of the source: \<open>[0-9A-F]\<close>, \<open>[0-9a-f]\<close>, \<open>[0-9a-fA-F]\<close>,
  \<open>[_\s]\<close> and \<open>[:=]\<close>.\<close>

definition hex_upper :: "char \<Rightarrow> bool" where
  "hex_upper c = (c \<in> set ''0123456789ABCDEF'')"

definition hex_lower :: "char \<Rightarrow> bool" where
  "hex_lower c = (c \<in> set ''0123456789abcdef'')"

definition hex_any :: "char \<Rightarrow> bool" where
  "hex_any c = (c \<in> set ''0123456789abcdefABCDEF'')"

definition underscore_or_space :: "char \<Rightarrow> bool" where
  "underscore_or_space c = (c = CHR ''_'' \<or> is_space c)"

definition colon_or_equals :: "char \<Rightarrow> bool" where
  "colon_or_equals c = (c = CHR '':'' \<or> c = CHR ''='')"

text \<open>\<open>String.prototype.trim\<close>, \<open>startsWith\<close> and \<open>Array.prototype.join\<close>.\<close>

definition trim :: "string \<Rightarrow> string" where
  "trim s = rev (dropWhile is_space (rev (dropWhile is_space s)))"

definition startsWith :: "string \<Rightarrow> string \<Rightarrow> bool" where
  "startsWith s p = (take (length p) s = p)"

fun join :: "string \<Rightarrow> string list \<Rightarrow> string" where
  "join sep [] = []"
| "join sep [x] = x"
| "join sep (x # y # ys) = x @ sep @ join sep (y # ys)"

text \<open>\<open>Number\<close> applied to a run of decimal digits, exact for the values a double
  holds exactly (below \<open>2^53\<close>).\<close>

definition digit_value :: "char \<Rightarrow> nat" where
  "digit_value c = (case map_of (zip ''0123456789'' [0, 1, 2, 3, 4, 5, 6, 7, 8, 9]) c of
                      None \<Rightarrow> 0 | Some d \<Rightarrow> d)"

definition number_of_digits :: "string \<Rightarrow> nat" where
  "number_of_digits ds = foldl (\<lambda>n c. 10 * n + digit_value c) 0 ds"

text \<open>
  The regular expressions of the source, as terms.  \<open>Chr\<close> is a literal character,
  \<open>Cls\<close> a character class, \<open>Bol\<close> and \<open>Eol\<close> are \<open>^\<close> and \<open>$\<close>, \<open>WordB\<close> is \<open>\b\<close>,
  \<open>Opt\<close>, \<open>Star\<close> and \<open>Plus\<close> are the greedy \<open>?\<close>, \<open>*\<close> and \<open>+\<close>, \<open>Times n\<close> is \<open>{n}\<close>,
  \<open>AtLeast n\<close> is \<open>{n,}\<close>, and \<open>Group k\<close> is the \<open>k\<close>-th capturing parenthesis.
\<close>

datatype rx =
    Eps
  | Chr char
  | Cls "char \<Rightarrow> bool"
  | Bol
  | Eol
  | WordB
  | Seq rx rx
  | Alt rx rx
  | Opt rx
  | Star rx
  | Plus rx
  | Times nat rx
  | AtLeast nat rx
  | Group nat rx

definition cat :: "rx list \<Rightarrow> rx" where
  "cat rs = foldr Seq rs Eps"

definition lit :: "string \<Rightarrow> rx" where
  "lit s = cat (map Chr s)"

text \<open>
  A matcher state is the character before the current position (none at the start of
  the input), the input still to be read, and the captures made so far, the latest
  first.  The matcher returns every way to match at the current position, in the order
  in which the backtracking engine tries them, so that the head of the list is the match
  the engine reports.  An iteration of \<open>*\<close> that consumes nothing is not repeated, hence
  the number of iterations is bounded by the length of the remaining input.
\<close>

type_synonym mstate = "char option \<times> string \<times> (nat \<times> string) list"

definition chr_matches :: "bool \<Rightarrow> char \<Rightarrow> char \<Rightarrow> bool" where
  "chr_matches icase c x = (if icase then to_upper x = to_upper c else x = c)"

definition cls_matches :: "bool \<Rightarrow> (char \<Rightarrow> bool) \<Rightarrow> char \<Rightarrow> bool" where
  "cls_matches icase p x = (if icase then p x \<or> p (to_upper x) \<or> p (to_lower x) else p x)"

definition at_word_boundary :: "char option \<Rightarrow> string \<Rightarrow> bool" where
  "at_word_boundary prev s =
     ((case prev of None \<Rightarrow> False | Some c \<Rightarrow> is_word c)
        \<noteq> (case s of [] \<Rightarrow> False | c # _ \<Rightarrow> is_word c))"

fun rx_times :: "nat \<Rightarrow> (mstate \<Rightarrow> mstate list) \<Rightarrow> mstate \<Rightarrow> mstate list" where
  "rx_times 0 f st = [st]"
| "rx_times (Suc n) f st = concat (map (rx_times n f) (f st))"

fun rx_iter :: "nat \<Rightarrow> (mstate \<Rightarrow> mstate list) \<Rightarrow> mstate \<Rightarrow> mstate list" where
  "rx_iter 0 f st = [st]"
| "rx_iter (Suc n) f st =
     concat (map (rx_iter n f)
               (filter (\<lambda>st'. length (fst (snd st')) < length (fst (snd st))) (f st)))
       @ [st]"

definition rx_star :: "(mstate \<Rightarrow> mstate list) \<Rightarrow> mstate \<Rightarrow> mstate list" where
  "rx_star f st = rx_iter (length (fst (snd st))) f st"

definition capture :: "nat \<Rightarrow> mstate \<Rightarrow> mstate \<Rightarrow> mstate" where
  "capture k st st' =
     (case st of (prev, s, caps) \<Rightarrow>
        (case st' of (prev', s', caps') \<Rightarrow>
           (prev', s', (k, take (length s - length s') s) # caps')))"

primrec rx_match :: "bool \<Rightarrow> rx \<Rightarrow> mstate \<Rightarrow> mstate list" where
  "rx_match icase Eps = (\<lambda>st. [st])"
| "rx_match icase (Chr c) =
     (\<lambda>st. case st of (prev, s, caps) \<Rightarrow>
        (case s of [] \<Rightarrow> []
         | x # xs \<Rightarrow> if chr_matches icase c x then [(Some x, xs, caps)] else []))"
| "rx_match icase (Cls p) =
     (\<lambda>st. case st of (prev, s, caps) \<Rightarrow>
        (case s of [] \<Rightarrow> []
         | x # xs \<Rightarrow> if cls_matches icase p x then [(Some x, xs, caps)] else []))"
| "rx_match icase Bol = (\<lambda>st. if fst st = None then [st] else [])"
| "rx_match icase Eol = (\<lambda>st. if fst (snd st) = [] then [st] else [])"
| "rx_match icase WordB = (\<lambda>st. if at_word_boundary (fst st) (fst (snd st)) then [st] else [])"
| "rx_match icase (Seq a b) = (\<lambda>st. concat (map (rx_match icase b) (rx_match icase a st)))"
| "rx_match icase (Alt a b) = (\<lambda>st. rx_match icase a st @ rx_match icase b st)"
| "rx_match icase (Opt a) = (\<lambda>st. rx_match icase a st @ [st])"
| "rx_match icase (Star a) = rx_star (rx_match icase a)"
| "rx_match icase (Plus a) = (\<lambda>st. concat (map (rx_star (rx_match icase a)) (rx_match icase a st)))"
| "rx_match icase (Times n a) = rx_times n (rx_match icase a)"
| "rx_match icase (AtLeast n a) =
     (\<lambda>st. concat (map (rx_star (rx_match icase a)) (rx_times n (rx_match icase a) st)))"
| "rx_match icase (Group k a) = (\<lambda>st. map (capture k st) (rx_match icase a st))"

text \<open>
  \<open>exec\<close> without the global flag: the leftmost start position with a match, and there
  the first match in backtracking order.  Capture 0 is the matched text.
\<close>

fun rx_search :: "bool \<Rightarrow> rx \<Rightarrow> char option \<Rightarrow> string \<Rightarrow> mstate option" where
  "rx_search icase r prev [] =
     (case rx_match icase r (prev, [], []) of [] \<Rightarrow> None | m # _ \<Rightarrow> Some m)"
| "rx_search icase r prev (c # cs) =
     (case rx_match icase r (prev, c # cs, []) of
        [] \<Rightarrow> rx_search icase r (Some c) cs
      | m # _ \<Rightarrow> Some m)"

definition rx_exec :: "bool \<Rightarrow> rx \<Rightarrow> string \<Rightarrow> (nat \<times> string) list option" where
  "rx_exec icase r s = map_option (\<lambda>m. snd (snd m)) (rx_search icase (Group 0 r) None s)"

definition rx_test :: "bool \<Rightarrow> rx \<Rightarrow> string \<Rightarrow> bool" where
  "rx_test icase r s = (rx_exec icase r s \<noteq> None)"

definition captured :: "(nat \<times> string) list \<Rightarrow> nat \<Rightarrow> string option" where
  "captured caps k = map_of caps k"

section \<open>Status decoder\<close>

text \<open>
  \<open>EdSignStatus\<close> is a union of objects told apart by their \<open>state\<close>; the frame extractor
  later assigns fields that the declared variants do not have, so the model is one record
  whose other fields are optional (an absent field is \<open>None\<close>).  The decoder's \<open>null\<close>
  is \<open>None\<close>.
\<close>

datatype state_tag =
  ERROR | PH_INIT_K | PH_INIT_R | PH_R_WORK | PH_R_DONE | PH_DONE | PH_IDLE | BUSY

record EdSignStatus =
  state :: state_tag
  error :: "string option"
  stepsRemaining :: "nat option"
  signature :: "string option"
  progress :: "int option"
  stepsTotal :: "int option"
  pubkey :: "string option"

definition status_of :: "state_tag \<Rightarrow> EdSignStatus" where
  "status_of tag = \<lparr>state = tag, error = None, stepsRemaining = None, signature = None,
                      progress = None, stepsTotal = None, pubkey = None\<rparr>"

text \<open>The regular expression literals of \<open>parseEdSignTextStatus\<close>, in source order.\<close>

definition spaces :: rx where
  "spaces = Star (Cls is_space)"

definition re_error :: rx where
  "re_error = cat [lit ''err'', Opt (Group 1 (lit ''or''))]"

definition re_init_k :: rx where
  "re_init_k = cat [WordB, lit ''PH_INIT_K'', WordB]"

definition re_init_r :: rx where
  "re_init_r = cat [WordB, lit ''PH_INIT_R'', WordB]"

definition re_r_work :: rx where
  "re_r_work = cat [Chr CHR ''R'', spaces, Opt (Chr CHR '':''), spaces, Chr CHR ''i'', spaces,
                    Chr CHR ''='', spaces, Group 1 (Plus (Cls is_digit))]"

definition re_r_line :: rx where
  "re_r_line = cat [Bol, Chr CHR ''R'', WordB]"

definition re_number :: rx where
  "re_number = Group 1 (Plus (Cls is_digit))"

definition re_r_done :: rx where
  "re_r_done = cat [WordB, Chr CHR ''R'', spaces, Opt (Chr CHR '':''), spaces, lit ''done'', WordB]"

definition re_hex_only :: rx where
  "re_hex_only = cat [Bol, Plus (Cls hex_upper), Eol]"

definition re_busy :: rx where
  "re_busy = cat [Bol, spaces, lit ''busy'', spaces, Eol]"

definition re_sig :: rx where
  "re_sig = cat [lit ''sig'', Opt (Group 1 (lit ''nature''))]"

definition re_hex_run :: rx where
  "re_hex_run = cat [WordB, AtLeast 64 (Cls hex_lower), WordB]"

definition re_done_ok :: rx where
  "re_done_ok = cat [WordB, Group 1 (Alt (lit ''done'') (Alt (lit ''ok'') (lit ''success''))), WordB]"

text \<open>
  A capture group that took part in the match holds its text.  The groups the source
  reads (\<open>r[1]\<close>, \<open>num[1]\<close>, \<open>pubkeyMatch[2]\<close>, \<open>uidMatch[2]\<close> and the whole match
  of the hexadecimal run) are outside every optional part, so they are set whenever their
  expression matches, as \<open>groups_read_are_set\<close> shows below; \<open>group_text\<close> reads such
  a group.
\<close>

definition group_text :: "(nat \<times> string) list \<Rightarrow> nat \<Rightarrow> string" where
  "group_text caps k = (case captured caps k of None \<Rightarrow> [] | Some s \<Rightarrow> s)"

definition parseEdSignTextStatus :: "string \<Rightarrow> EdSignStatus option" where
  "parseEdSignTextStatus text =
     (let t = trim text in
      if rx_test True re_error t then Some ((status_of ERROR)\<lparr>error := Some t\<rparr>)
      else if rx_test True re_init_k t then
        Some ((status_of PH_INIT_K)\<lparr>progress := Some INIT_PROGRESS\<rparr>)
      else if rx_test True re_init_r t then
        Some ((status_of PH_INIT_R)\<lparr>progress := Some INIT_PROGRESS\<rparr>)
      else
        (case rx_exec True re_r_work t of
           Some r \<Rightarrow>
             Some ((status_of PH_R_WORK)
                     \<lparr>stepsRemaining := Some (number_of_digits (group_text r 1))\<rparr>)
         | None \<Rightarrow>
             if rx_test True re_r_line t then
               (case rx_exec False re_number t of
                  Some num \<Rightarrow>
                    Some ((status_of PH_R_WORK)
                            \<lparr>stepsRemaining := Some (number_of_digits (group_text num 1))\<rparr>)
                | None \<Rightarrow> Some (status_of PH_R_WORK))
             else if rx_test True re_r_done t then Some (status_of PH_R_DONE)
             else if length t = 128 \<and> rx_test True re_hex_only t then
               Some ((status_of PH_DONE)\<lparr>signature := Some t, progress := Some 100\<rparr>)
             else if length t = 64 \<and> rx_test True re_hex_only t then
               Some ((status_of PH_IDLE)\<lparr>pubkey := Some t\<rparr>)
             else if rx_test True re_busy t then Some (status_of BUSY)
             else if rx_test True re_sig t then
               (case rx_exec True re_hex_run t of
                  Some m \<Rightarrow>
                    if group_text m 0 \<noteq> [] \<and> length (group_text m 0) = 128 then
                      Some ((status_of PH_DONE)
                              \<lparr>signature := Some (group_text m 0), progress := Some 100\<rparr>)
                    else Some ((status_of PH_DONE)\<lparr>progress := Some 100\<rparr>)
                | None \<Rightarrow> Some ((status_of PH_DONE)\<lparr>progress := Some 100\<rparr>))
             else if rx_test True re_done_ok t then
               Some ((status_of PH_DONE)\<lparr>progress := Some 100\<rparr>)
             else None))"

section \<open>Exceptions, JSON values and payloads\<close>

text \<open>
  An exception is its \<open>name\<close> and its message.  A computation that may throw returns an
  \<open>outcome\<close>; \<open>catch\<close> is \<open>try { ... } catch\<close> and \<open>then_do\<close> sequences two computations,
  the second running only if the first returned.
\<close>

datatype exn = Exn string string

datatype 'a outcome = Returns 'a | Throws exn

definition catch :: "'a outcome \<Rightarrow> (exn \<Rightarrow> 'a outcome) \<Rightarrow> 'a outcome" where
  "catch body handler = (case body of Returns v \<Rightarrow> Returns v | Throws e \<Rightarrow> handler e)"

definition then_do :: "'a outcome \<Rightarrow> ('a \<Rightarrow> 'b outcome) \<Rightarrow> 'b outcome" where
  "then_do m f = (case m of Returns v \<Rightarrow> f v | Throws e \<Rightarrow> Throws e)"

text \<open>
  JSON values, with integers for numbers.  \<open>JSON.parse\<close> and \<open>TextDecoder.decode\<close> belong
  to the platform: the model takes them as parameters, each free to throw.
\<close>

datatype json =
    JNull
  | JBool bool
  | JNum int
  | JStr string
  | JArr "json list"
  | JObj "(string \<times> json) list"

record platform =
  decode :: "8 word list \<Rightarrow> string outcome"
  JSON_parse :: "string \<Rightarrow> json outcome"

text \<open>The objects built in step 4 of the frame extractor: \<open>{publicKey}\<close> or
  \<open>{rawText, publicKey?, chipId?}\<close>.\<close>

record key_info =
  rawText :: "string option"
  publicKey :: "string option"
  chipId :: "string option"

datatype payload = Parsed json | Status EdSignStatus | Info key_info

text \<open>\<open>JSON.stringify\<close>: object keys in insertion order, absent fields left out.\<close>

fun show_nat :: "nat \<Rightarrow> string" where
  "show_nat n =
     (if n < 10 then [''0123456789'' ! n]
      else show_nat (n div 10) @ [''0123456789'' ! (n mod 10)])"

definition show_int :: "int \<Rightarrow> string" where
  "show_int i = (if i < 0 then CHR ''-'' # show_nat (nat (- i)) else show_nat (nat i))"

definition escape_char :: "char \<Rightarrow> string" where
  "escape_char c =
     (if c = CHR 0x22 then [CHR 0x5C, CHR 0x22]
      else if c = CHR 0x5C then [CHR 0x5C, CHR 0x5C]
      else if c = CHR 0x08 then [CHR 0x5C, CHR ''b'']
      else if c = CHR 0x09 then [CHR 0x5C, CHR ''t'']
      else if c = CHR 0x0A then [CHR 0x5C, CHR ''n'']
      else if c = CHR 0x0C then [CHR 0x5C, CHR ''f'']
      else if c = CHR 0x0D then [CHR 0x5C, CHR ''r'']
      else if (of_char c :: nat) < 32 then
        [CHR 0x5C, CHR ''u'', CHR ''0'', CHR ''0'',
         ''0123456789abcdef'' ! (of_char c div 16), ''0123456789abcdef'' ! (of_char c mod 16)]
      else [c])"

definition quote :: "string \<Rightarrow> string" where
  "quote s = CHR 0x22 # concat (map escape_char s) @ [CHR 0x22]"

fun stringify_value :: "json \<Rightarrow> string" where
  "stringify_value JNull = ''null''"
| "stringify_value (JBool b) = (if b then ''true'' else ''false'')"
| "stringify_value (JNum i) = show_int i"
| "stringify_value (JStr s) = quote s"
| "stringify_value (JArr xs) = ''['' @ join '','' (map stringify_value xs) @ '']''"
| "stringify_value (JObj kvs) =
     ''{'' @ join '','' (map (\<lambda>kv. quote (fst kv) @ '':'' @ stringify_value (snd kv)) kvs) @ ''}''"

definition state_name :: "state_tag \<Rightarrow> string" where
  "state_name tag =
     (case tag of ERROR \<Rightarrow> ''ERROR'' | PH_INIT_K \<Rightarrow> ''PH_INIT_K'' | PH_INIT_R \<Rightarrow> ''PH_INIT_R''
      | PH_R_WORK \<Rightarrow> ''PH_R_WORK'' | PH_R_DONE \<Rightarrow> ''PH_R_DONE'' | PH_DONE \<Rightarrow> ''PH_DONE''
      | PH_IDLE \<Rightarrow> ''PH_IDLE'' | BUSY \<Rightarrow> ''BUSY'')"

definition field :: "string \<Rightarrow> ('a \<Rightarrow> json) \<Rightarrow> 'a option \<Rightarrow> (string \<times> json) list" where
  "field k f v = (case v of None \<Rightarrow> [] | Some x \<Rightarrow> [(k, f x)])"

definition json_of_status :: "EdSignStatus \<Rightarrow> json" where
  "json_of_status s =
     JObj ([(''state'', JStr (state_name (state s)))]
           @ field ''error'' JStr (error s)
           @ field ''stepsRemaining'' (\<lambda>n. JNum (int n)) (stepsRemaining s)
           @ field ''signature'' JStr (signature s)
           @ field ''progress'' JNum (progress s)
           @ field ''stepsTotal'' JNum (stepsTotal s)
           @ field ''pubkey'' JStr (pubkey s))"

definition json_of_info :: "key_info \<Rightarrow> json" where
  "json_of_info i =
     JObj (field ''rawText'' JStr (rawText i)
           @ field ''publicKey'' JStr (publicKey i)
           @ field ''chipId'' JStr (chipId i))"

definition json_of_payload :: "payload \<Rightarrow> json" where
  "json_of_payload p =
     (case p of Parsed j \<Rightarrow> j | Status s \<Rightarrow> json_of_status s | Info i \<Rightarrow> json_of_info i)"

definition JSON_stringify :: "payload \<Rightarrow> string" where
  "JSON_stringify p = stringify_value (json_of_payload p)"

text \<open>The test \<open>if (parsed)\<close>: \<open>null\<close>, \<open>false\<close>, \<open>0\<close> and the empty string are falsy,
  every object and array is truthy.\<close>

definition truthy :: "payload \<Rightarrow> bool" where
  "truthy p =
     (case p of
        Parsed j \<Rightarrow>
          (case j of JNull \<Rightarrow> False | JBool b \<Rightarrow> b | JNum i \<Rightarrow> i \<noteq> 0 | JStr s \<Rightarrow> s \<noteq> []
           | JArr xs \<Rightarrow> True | JObj kvs \<Rightarrow> True)
      | Status s \<Rightarrow> True
      | Info i \<Rightarrow> True)"

section \<open>Frame extractor\<close>

text \<open>One NDEF record of a reading event, and the event with its tag serial number.\<close>

record ndef_record =
  recordType :: string
  mediaType :: "string option"
  recordId :: "string option"
  data :: "8 word list option"

record reading_event =
  serialNumber :: "string option"
  records :: "ndef_record list"

definition safeDecode :: "(8 word list \<Rightarrow> string outcome) \<Rightarrow> 8 word list option \<Rightarrow> string outcome" where
  "safeDecode dec d =
     catch (case d of None \<Rightarrow> Returns [] | Some bytes \<Rightarrow> dec bytes) (\<lambda>e. Returns [])"

definition looks_like_json :: "string \<Rightarrow> bool" where
  "looks_like_json text =
     (text \<noteq> [] \<and> (startsWith (trim text) ''{'' \<or> startsWith (trim text) ''[''))"

text \<open>
  The four loops of \<open>tryParseFromEvent\<close>.  A loop that executes \<open>return\<close> yields \<open>Some\<close>
  of the returned payload; a loop that runs to its end yields \<open>None\<close> and the function
  goes on with the next step.
\<close>

fun jsonRecords :: "platform \<Rightarrow> ndef_record list \<Rightarrow> payload option outcome" where
  "jsonRecords pf [] = Returns None"
| "jsonRecords pf (r # rs) =
     (if mediaType r = Some ''application/vnd.edsign+json'' \<or> mediaType r = Some ''application/json''
      then
        then_do (safeDecode (decode pf) (data r)) (\<lambda>text.
          if looks_like_json text then
            catch (then_do (JSON_parse pf text) (\<lambda>j. Returns (Some (Parsed j))))
                  (\<lambda>e. jsonRecords pf rs)
          else jsonRecords pf rs)
      else jsonRecords pf rs)"

fun textJsonRecords :: "platform \<Rightarrow> ndef_record list \<Rightarrow> payload option outcome" where
  "textJsonRecords pf [] = Returns None"
| "textJsonRecords pf (r # rs) =
     (if recordType r = ''text'' then
        then_do (safeDecode (decode pf) (data r)) (\<lambda>text.
          if looks_like_json text then
            catch (then_do (JSON_parse pf text) (\<lambda>j. Returns (Some (Parsed j))))
                  (\<lambda>e. textJsonRecords pf rs)
          else textJsonRecords pf rs)
      else textJsonRecords pf rs)"

text \<open>The block that fills in a decoded status before it is returned (step 3).\<close>

definition backfill :: "EdSignStatus \<Rightarrow> EdSignStatus" where
  "backfill status =
     (let s1 = (if (state status = PH_INIT_K \<or> state status = PH_INIT_R) \<and> progress status = None
                then status\<lparr>progress := Some INIT_PROGRESS\<rparr> else status);
          s2 = (case stepsRemaining s1 of
                  Some n \<Rightarrow>
                    s1\<lparr>progress := Some (fst (progressFromRemaining (rat_of_nat n))),
                       stepsTotal := Some (snd (progressFromRemaining (rat_of_nat n)))\<rparr>
                | None \<Rightarrow> s1);
          s3 = (if state s2 = PH_R_DONE \<and> progress s2 = None
                then s2\<lparr>progress := Some (max R_DONE_PROGRESS 97), stepsTotal := Some TOTAL_STEPS\<rparr>
                else s2)
      in if state s3 = PH_DONE then s3\<lparr>progress := Some 100\<rparr> else s3)"

fun statusRecords :: "platform \<Rightarrow> ndef_record list \<Rightarrow> payload option outcome" where
  "statusRecords pf [] = Returns None"
| "statusRecords pf (r # rs) =
     (if recordType r = ''text'' then
        then_do (safeDecode (decode pf) (data r)) (\<lambda>text.
          case parseEdSignTextStatus text of
            Some status \<Rightarrow> Returns (Some (Status (backfill status)))
          | None \<Rightarrow> statusRecords pf rs)
      else statusRecords pf rs)"

fun textLines :: "platform \<Rightarrow> ndef_record list \<Rightarrow> string list outcome" where
  "textLines pf [] = Returns []"
| "textLines pf (r # rs) =
     (if recordType r = ''text'' then
        then_do (safeDecode (decode pf) (data r)) (\<lambda>text.
          then_do (textLines pf rs) (\<lambda>texts.
            Returns (if text \<noteq> [] then trim text # texts else texts)))
      else textLines pf rs)"

definition re_hex64 :: rx where
  "re_hex64 = cat [Bol, Times 64 (Cls hex_any), Eol]"

definition re_pubkey :: rx where
  "re_pubkey =
     cat [Group 1 (Alt (lit ''pubkey'')
                       (cat [lit ''public'', Opt (Cls underscore_or_space), lit ''key''])),
          spaces, Cls colon_or_equals, spaces, Group 2 (Plus (Cls hex_any))]"

definition re_uid :: rx where
  "re_uid =
     cat [WordB,
          Group 1 (Alt (lit ''uid'') (cat [lit ''chip'', Opt (Cls underscore_or_space), lit ''id''])),
          spaces, Cls colon_or_equals, spaces, Group 2 (Plus (Cls hex_any))]"

definition rawPayload :: "string list \<Rightarrow> payload option" where
  "rawPayload texts =
     (if texts \<noteq> [] then
        (let raw = trim (join [CHR 0x0A] texts) in
         if rx_test False re_hex64 raw then
           Some (Info \<lparr>rawText = None, publicKey = Some raw, chipId = None\<rparr>)
         else
           (let pubkeyMatch = rx_exec True re_pubkey raw;
                uidMatch = rx_exec True re_uid raw
            in Some (Info \<lparr>rawText = Some raw,
                            publicKey = map_option (\<lambda>m. group_text m 2) pubkeyMatch,
                            chipId = map_option (\<lambda>m. group_text m 2) uidMatch\<rparr>)))
      else None)"

text \<open>The record shapes whose serialization is kept in \<open>lastHashRef\<close>.\<close>

definition msgSig :: "ndef_record list \<Rightarrow> string" where
  "msgSig rs =
     stringify_value
       (JArr (map (\<lambda>r. JObj ([(''t'', JStr (recordType r))]
                              @ field ''m'' JStr (mediaType r)
                              @ field ''id'' JStr (recordId r)
                              @ [(''len'', JNum (case data r of None \<Rightarrow> 0
                                                | Some bytes \<Rightarrow> int (length bytes)))])) rs))"

text \<open>The value \<open>tryParseFromEvent\<close> returns (\<open>None\<close> is \<open>null\<close>).  Steps 1 to 4 in order;
  the first step that returns a payload ends the function.\<close>

definition extractPayload :: "platform \<Rightarrow> ndef_record list \<Rightarrow> payload option outcome" where
  "extractPayload pf rs =
     then_do (jsonRecords pf rs) (\<lambda>r1.
       case r1 of Some p \<Rightarrow> Returns (Some p)
       | None \<Rightarrow>
         then_do (textJsonRecords pf rs) (\<lambda>r2.
           case r2 of Some p \<Rightarrow> Returns (Some p)
           | None \<Rightarrow>
             then_do (statusRecords pf rs) (\<lambda>r3.
               case r3 of Some p \<Rightarrow> Returns (Some p)
               | None \<Rightarrow>
                 then_do (textLines pf rs) (\<lambda>texts. Returns (rawPayload texts)))))"

text \<open>
  For the evaluation of concrete frames: a text record that carries the code units of a
  text as bytes, and a platform whose decoder reads each byte as the code unit of the same
  value (UTF-8 on ASCII text) and whose \<open>JSON.parse\<close> rejects its input, as it does for
  every text that is not JSON.
\<close>

definition text_record :: "string \<Rightarrow> ndef_record" where
  "text_record s =
     \<lparr>recordType = ''text'', mediaType = None, recordId = None,
      data = Some (map (\<lambda>c. of_nat (of_char c)) s)\<rparr>"

definition plain_text_platform :: platform where
  "plain_text_platform =
     \<lparr>decode = (\<lambda>bytes. Returns (map (\<lambda>b. char_of (unat b)) bytes)),
      JSON_parse = (\<lambda>text. Throws (Exn ''SyntaxError'' ''Unexpected token''))\<rparr>"

section \<open>The scanning hook as a state machine\<close>

text \<open>
  The hook runs on one cooperative timeline: a callback runs until it ends or reaches an
  \<open>await\<close>, and other callbacks run while it is suspended.  The model keeps the refs of
  the hook in a record, together with the asynchronous operations that are suspended
  (\<open>tasks\<close>) and the \<open>setTimeout\<close> callbacks that are pending (\<open>timers\<close>).  Each event
  of the environment (a call of the API, a timer firing, an awaited promise settling, a
  reading event of the tag) is one step, and \<open>Date.now()\<close> is the time that comes with
  the event.

  \<open>doScan\<close> is awaited by four callers; \<open>kont\<close> names the caller that goes on when
  \<open>doScan\<close> ends.  A task is a point where an operation is suspended.  The callbacks
  \<open>onReading\<close> and \<open>onError\<close> of the consumer are taken to be installed; the model
  records their calls and does not run them.
\<close>

record StartOpts =
  pollMs :: "int option"
  deepResetEveryMs :: "int option"
  deepResetPauseMs :: "int option"
  staleAfterMs :: "int option"

datatype kont = KRescanNow | KDeepReset | KStartScan | KStartSingleRead int

datatype task =
    Sleep50 kont
  | ScanCall kont
  | DeepPause int

datatype timer = AfterReading | SingleReadTimeout "nat option"

datatype scan_result = ScanStarted | ScanRejected exn

record hook =
  isSupported :: bool
  listenersAttached :: bool
  controllerRef :: "nat option"
  aborted :: "nat list"
  scanIntervalRef :: "nat option"
  restartingRef :: bool
  pollingMsRef :: int
  deepEveryRef :: int
  deepPauseRef :: int
  staleAfterRef :: int
  lastHashRef :: string
  lastPayloadRef :: string
  lastUpdateTsRef :: int
  lastDeepResetTsRef :: int
  rBaselineRef :: "int option"
  suppressRescanRef :: bool
  nextHandle :: nat
  timers :: "(nat \<times> timer \<times> int) list"
  tasks :: "task list"
  onReadingCalls :: "(string option \<times> payload) list"
  onErrorCalls :: "exn list"
  finished :: "(kont \<times> nat option outcome) list"

text \<open>
  An \<open>AbortController\<close> and a timer handle are numbers drawn from \<open>nextHandle\<close>;
  \<open>aborted\<close> lists the controllers whose \<open>abort()\<close> was called.  \<open>onReadingCalls\<close> and
  \<open>onErrorCalls\<close> record the calls of the consumer's callbacks in order, and
  \<open>finished\<close> records how each asynchronous call ended: it returned (\<open>startSingleRead\<close>
  returns the handle its disposer clears) or it threw.
\<close>

definition initial_hook :: "bool \<Rightarrow> hook" where
  "initial_hook supported =
     \<lparr>isSupported = supported, listenersAttached = False, controllerRef = None, aborted = [],
      scanIntervalRef = None, restartingRef = False, pollingMsRef = 1000, deepEveryRef = 10000,
      deepPauseRef = 1800, staleAfterRef = 5000, lastHashRef = [], lastPayloadRef = [],
      lastUpdateTsRef = 0, lastDeepResetTsRef = 0, rBaselineRef = None,
      suppressRescanRef = False, nextHandle = 0, timers = [], tasks = [],
      onReadingCalls = [], onErrorCalls = [], finished = []\<rparr>"

definition abortController :: "hook \<Rightarrow> hook" where
  "abortController st =
     (case controllerRef st of None \<Rightarrow> st | Some c \<Rightarrow> st\<lparr>aborted := c # aborted st\<rparr>)"

definition setTimeout :: "timer \<Rightarrow> int \<Rightarrow> hook \<Rightarrow> hook" where
  "setTimeout cb ms st =
     st\<lparr>timers := timers st @ [(nextHandle st, cb, ms)], nextHandle := Suc (nextHandle st)\<rparr>"

definition clearTimeout :: "nat \<Rightarrow> hook \<Rightarrow> hook" where
  "clearTimeout h st = st\<lparr>timers := filter (\<lambda>t. fst t \<noteq> h) (timers st)\<rparr>"

definition stopPolling :: "hook \<Rightarrow> hook" where
  "stopPolling st = (if scanIntervalRef st \<noteq> None then st\<lparr>scanIntervalRef := None\<rparr> else st)"

definition emitIfChanged :: "int \<Rightarrow> string option \<Rightarrow> payload \<Rightarrow> hook \<Rightarrow> hook" where
  "emitIfChanged now tagId p st =
     (let sig = JSON_stringify p in
      if sig \<noteq> lastPayloadRef st then
        st\<lparr>lastPayloadRef := sig, lastUpdateTsRef := now,
           onReadingCalls := onReadingCalls st @ [(tagId, p)]\<rparr>
      else st)"

definition tryParseFromEvent ::
  "platform \<Rightarrow> reading_event \<Rightarrow> hook \<Rightarrow> payload option outcome \<times> hook" where
  "tryParseFromEvent pf event st =
     (let sig = msgSig (records event);
          st1 = (if lastHashRef st \<noteq> sig then st\<lparr>lastHashRef := sig\<rparr> else st)
      in (extractPayload pf (records event), st1))"

text \<open>The end of \<open>doScan\<close>, seen from its caller: the code after \<open>await doScan()\<close> when it
  returned, and what the caller does with an exception.\<close>

definition doScan_returned :: "kont \<Rightarrow> int \<Rightarrow> hook \<Rightarrow> hook" where
  "doScan_returned k now st =
     (case k of
        KRescanNow \<Rightarrow>
          st\<lparr>restartingRef := False, finished := finished st @ [(k, Returns None)]\<rparr>
      | KDeepReset \<Rightarrow>
          st\<lparr>lastDeepResetTsRef := now, finished := finished st @ [(k, Returns None)]\<rparr>
      | KStartScan \<Rightarrow>
          (let st1 = stopPolling (st\<lparr>lastDeepResetTsRef := now, lastUpdateTsRef := now\<rparr>)
           in st1\<lparr>scanIntervalRef := Some (nextHandle st1), nextHandle := Suc (nextHandle st1),
                  finished := finished st1 @ [(k, Returns None)]\<rparr>)
      | KStartSingleRead timeoutMs \<Rightarrow>
          (let st1 = setTimeout (SingleReadTimeout (controllerRef st)) timeoutMs st
           in st1\<lparr>finished := finished st1 @ [(k, Returns (Some (nextHandle st)))]\<rparr>))"

definition doScan_threw :: "kont \<Rightarrow> exn \<Rightarrow> hook \<Rightarrow> hook" where
  "doScan_threw k e st =
     (case k of
        KRescanNow \<Rightarrow> st\<lparr>restartingRef := False, finished := finished st @ [(k, Throws e)]\<rparr>
      | KDeepReset \<Rightarrow> st\<lparr>finished := finished st @ [(k, Throws e)]\<rparr>
      | KStartScan \<Rightarrow> st\<lparr>finished := finished st @ [(k, Throws e)]\<rparr>
      | KStartSingleRead timeoutMs \<Rightarrow> st\<lparr>finished := finished st @ [(k, Throws e)]\<rparr>)"

text \<open>\<open>doScan\<close> in three parts: up to \<open>await sleep(50)\<close>, from there to
  \<open>await reader.scan(...)\<close>, and the rest.\<close>

definition doScan :: "kont \<Rightarrow> hook \<Rightarrow> hook" where
  "doScan k st =
     (if \<not> isSupported st then
        doScan_threw k (Exn ''Error'' ''Web NFC not supported in this browser'') st
      else
        (let st1 = abortController (st\<lparr>listenersAttached := True\<rparr>)
         in st1\<lparr>tasks := tasks st1 @ [Sleep50 k]\<rparr>))"

definition doScan_afterSleep :: "kont \<Rightarrow> hook \<Rightarrow> hook" where
  "doScan_afterSleep k st =
     st\<lparr>controllerRef := Some (nextHandle st), nextHandle := Suc (nextHandle st),
        tasks := tasks st @ [ScanCall k]\<rparr>"

definition exn_name :: "exn \<Rightarrow> string" where
  "exn_name e = (case e of Exn n m \<Rightarrow> n)"

definition doScan_afterScan :: "kont \<Rightarrow> scan_result \<Rightarrow> int \<Rightarrow> hook \<Rightarrow> hook" where
  "doScan_afterScan k res now st =
     (case res of
        ScanStarted \<Rightarrow> doScan_returned k now st
      | ScanRejected e \<Rightarrow>
          if exn_name e = ''AbortError'' then doScan_returned k now st
          else if exn_name e = ''NotAllowedError'' then doScan_threw k e st
          else doScan_returned k now st)"

definition rescanNow :: "hook \<Rightarrow> hook" where
  "rescanNow st =
     (if restartingRef st then st else doScan KRescanNow (st\<lparr>restartingRef := True\<rparr>))"

definition deepReset :: "hook \<Rightarrow> hook" where
  "deepReset st =
     (let st1 = abortController st in st1\<lparr>tasks := tasks st1 @ [DeepPause (deepPauseRef st1)]\<rparr>)"

definition option_or :: "'a option \<Rightarrow> 'a \<Rightarrow> 'a" where
  "option_or v d = (case v of None \<Rightarrow> d | Some x \<Rightarrow> x)"

definition startScan :: "StartOpts option \<Rightarrow> hook \<Rightarrow> hook" where
  "startScan opts st =
     doScan KStartScan
       (st\<lparr>pollingMsRef := max 250 (option_or (Option.bind opts pollMs) 1000),
           deepEveryRef := max 3000 (option_or (Option.bind opts deepResetEveryMs) 10000),
           deepPauseRef := max 500 (option_or (Option.bind opts deepResetPauseMs) 1800),
           staleAfterRef := max 2000 (option_or (Option.bind opts staleAfterMs) 5000),
           rBaselineRef := None, lastPayloadRef := [], lastHashRef := [],
           suppressRescanRef := False\<rparr>)"

definition startSingleRead :: "int option \<Rightarrow> hook \<Rightarrow> hook" where
  "startSingleRead timeoutMs st =
     doScan (KStartSingleRead (option_or timeoutMs 3000))
       ((stopPolling (st\<lparr>suppressRescanRef := True\<rparr>))
          \<lparr>rBaselineRef := None, lastPayloadRef := [], lastHashRef := []\<rparr>)"

definition stopScan :: "hook \<Rightarrow> hook" where
  "stopScan st = (abortController (stopPolling st))\<lparr>suppressRescanRef := False\<rparr>"

text \<open>The callback of \<open>setInterval\<close>.  It exists while \<open>scanIntervalRef\<close> holds its handle.\<close>

definition intervalTick :: "int \<Rightarrow> hook \<Rightarrow> hook" where
  "intervalTick now st =
     (if scanIntervalRef st = None then st
      else
        (let dueDeep = (now - lastDeepResetTsRef st \<ge> deepEveryRef st);
             stale = (now - lastUpdateTsRef st \<ge> staleAfterRef st)
         in if dueDeep \<or> stale then deepReset st else rescanNow st))"

text \<open>A pending timeout fires: the rescan scheduled after a reading, or the timeout of a
  single read.  A handle that is not pending (cleared, or fired before) does nothing.\<close>

definition timerFires :: "nat \<Rightarrow> hook \<Rightarrow> hook" where
  "timerFires h st =
     (case map_of (timers st) h of
        None \<Rightarrow> st
      | Some cb \<Rightarrow>
          (let st1 = clearTimeout h st in
           case fst cb of
             AfterReading \<Rightarrow> rescanNow st1
           | SingleReadTimeout localController \<Rightarrow>
               if controllerRef st1 = localController then abortController st1 else st1))"

text \<open>The \<open>reading\<close> listener, attached by the first \<open>doScan\<close>.\<close>

definition onReadingEvent :: "platform \<Rightarrow> int \<Rightarrow> reading_event \<Rightarrow> hook \<Rightarrow> hook" where
  "onReadingEvent pf now event st =
     (if \<not> listenersAttached st then st
      else
        (case tryParseFromEvent pf event st of
           (Throws e, st1) \<Rightarrow> st1\<lparr>onErrorCalls := onErrorCalls st1 @ [e]\<rparr>
         | (Returns parsed, st1) \<Rightarrow>
             (let st2 = (case parsed of
                           None \<Rightarrow> st1
                         | Some p \<Rightarrow>
                             if truthy p then emitIfChanged now (serialNumber event) p st1
                             else st1)
              in if \<not> suppressRescanRef st2 then setTimeout AfterReading 150 st2 else st2)))"

text \<open>A suspended operation goes on: the awaited sleep has elapsed, or the promise of
  \<open>reader.scan\<close> has settled with the given result.\<close>

definition resume :: "nat \<Rightarrow> scan_result \<Rightarrow> int \<Rightarrow> hook \<Rightarrow> hook" where
  "resume i res now st =
     (if i < length (tasks st) then
        (let st1 = st\<lparr>tasks := take i (tasks st) @ drop (Suc i) (tasks st)\<rparr> in
         case tasks st ! i of
           Sleep50 k \<Rightarrow> doScan_afterSleep k st1
         | ScanCall k \<Rightarrow> doScan_afterScan k res now st1
         | DeepPause ms \<Rightarrow> doScan KDeepReset st1)
      else st)"

datatype event =
    CallStartScan "StartOpts option"
  | CallStartSingleRead "int option"
  | CallStopScan
  | CallDisposer nat
  | IntervalTick int
  | TimerFires nat
  | Resume nat scan_result int
  | Reading int reading_event

definition step :: "platform \<Rightarrow> event \<Rightarrow> hook \<Rightarrow> hook" where
  "step pf e st =
     (case e of
        CallStartScan opts \<Rightarrow> startScan opts st
      | CallStartSingleRead timeoutMs \<Rightarrow> startSingleRead timeoutMs st
      | CallStopScan \<Rightarrow> stopScan st
      | CallDisposer h \<Rightarrow> clearTimeout h st
      | IntervalTick now \<Rightarrow> intervalTick now st
      | TimerFires h \<Rightarrow> timerFires h st
      | Resume i res now \<Rightarrow> resume i res now st
      | Reading now ev \<Rightarrow> onReadingEvent pf now ev st)"

definition run :: "platform \<Rightarrow> event list \<Rightarrow> hook \<Rightarrow> hook" where
  "run pf es st = foldl (\<lambda>s e. step pf e s) st es"

text \<open>The restarts in flight: the suspended \<open>rescanNow\<close> and \<open>deepReset\<close> operations.\<close>

definition is_restart :: "task \<Rightarrow> bool" where
  "is_restart t =
     (case t of
        Sleep50 k \<Rightarrow> k = KRescanNow \<or> k = KDeepReset
      | ScanCall k \<Rightarrow> k = KRescanNow \<or> k = KDeepReset
      | DeepPause ms \<Rightarrow> True)"

definition restartsInFlight :: "hook \<Rightarrow> nat" where
  "restartsInFlight st = length (filter is_restart (tasks st))"

section \<open>The application: power cycling and the device information read\<close>

text \<open>
  The application drives the hook.  Its calls of the hook and its waits are recorded as
  actions; what the hook and the user do while the application is suspended comes from
  the environment.
\<close>

datatype app_status = Idle | Writing | Computing | Done

datatype action = StartScan StartOpts | StopScan | Wait int | WriteText string | StartSingleRead int

text \<open>\<open>powerCycleIntervalRef\<close> holds the object with the \<open>stop\<close> method until the first cycle
  has ended, then the handle of the timer of the next cycle.\<close>

datatype cycle_handle = StopObject | NextCycleTimer

record app =
  cycleCount :: nat
  shouldContinue :: bool
  powerCycleIntervalRef :: "cycle_handle option"
  error_app :: string
  isScanning :: bool
  isFieldActive :: bool
  isGettingDeviceInfo :: bool
  publicKey_app :: string
  chipId_app :: string
  lastReadTime :: int
  failsafePending :: bool
  actions :: "action list"

definition initial_app :: app where
  "initial_app =
     \<lparr>cycleCount = 0, shouldContinue = True, powerCycleIntervalRef = None, error_app = [],
      isScanning = False, isFieldActive = False, isGettingDeviceInfo = False,
      publicKey_app = [], chipId_app = [], lastReadTime = 0, failsafePending = False,
      actions = []\<rparr>"

definition maxCycles :: nat where
  "maxCycles = 100"

definition cycleOpts :: StartOpts where
  "cycleOpts = \<lparr>pollMs = Some 300, deepResetEveryMs = Some 999999,
                 deepResetPauseMs = Some 0, staleAfterMs = Some 999999\<rparr>"

definition act :: "action list \<Rightarrow> app \<Rightarrow> app" where
  "act as st = st\<lparr>actions := actions st @ as\<rparr>"

text \<open>\<open>stopPowerCycling\<close>: calling \<open>stop\<close> clears \<open>shouldContinue\<close>; clearing the timer of
  the next cycle leaves \<open>shouldContinue\<close> as it is.\<close>

definition stopPowerCycling :: "app \<Rightarrow> app" where
  "stopPowerCycling st =
     (let st1 = (case powerCycleIntervalRef st of
                   None \<Rightarrow> st
                 | Some StopObject \<Rightarrow> st\<lparr>shouldContinue := False, powerCycleIntervalRef := None\<rparr>
                 | Some NextCycleTimer \<Rightarrow> st\<lparr>powerCycleIntervalRef := None\<rparr>)
      in (act [StopScan] st1)\<lparr>isScanning := False, isFieldActive := False\<rparr>)"

text \<open>
  What the environment does during one call of \<open>runCycles\<close>: the value of \<open>statusRef\<close>
  when the call begins and when its cycle has ended, whether the two calls of \<open>startScan\<close> in
  the cycle throw, and whether \<open>stopPowerCycling\<close> is called from outside while the
  cycle is in its compute window or while the timer of the next cycle is pending.
\<close>

record cycle_env =
  statusAtStart :: app_status
  firstScan :: "exn option"
  secondScan :: "exn option"
  stopInCycle :: bool
  statusAtEnd :: app_status
  stopInGap :: bool

definition doCycle :: "cycle_env \<Rightarrow> app \<Rightarrow> bool \<times> app" where
  "doCycle env st =
     (if cycleCount st \<ge> maxCycles then
        (False, (stopPowerCycling st)\<lparr>error_app := ''Computation timeout''\<rparr>)
      else if \<not> shouldContinue st then (False, st)
      else
        (let st1 = act [StartScan cycleOpts] (st\<lparr>cycleCount := cycleCount st + 1, isFieldActive := True\<rparr>)
         in case firstScan env of
              Some e \<Rightarrow> (False, st1)
            | None \<Rightarrow>
                (let st2 = (if stopInCycle env then stopPowerCycling st1 else st1);
                     st3 = (act [Wait 20000, StopScan] st2)\<lparr>isFieldActive := False\<rparr>;
                     st4 = act [Wait 500, StartScan cycleOpts] st3
                 in case secondScan env of
                      Some e \<Rightarrow> (False, st4)
                    | None \<Rightarrow>
                        (True, act [Wait 500]
                                 ((act [Wait 2000, StopScan] st4)\<lparr>isFieldActive := False\<rparr>)))))"

function runCycles :: "(nat \<Rightarrow> cycle_env) \<Rightarrow> app \<Rightarrow> app" where
  "runCycles env st =
     (if statusAtStart (env (cycleCount st)) \<noteq> Computing then stopPowerCycling st
      else
        (case doCycle (env (cycleCount st)) st of
           (continueNext, st1) \<Rightarrow>
             if continueNext \<and> shouldContinue st1 \<and> statusAtEnd (env (cycleCount st)) = Computing
             then
               (let st2 = (act [Wait 100] st1)\<lparr>powerCycleIntervalRef := Some NextCycleTimer\<rparr>
                in if stopInGap (env (cycleCount st)) then stopPowerCycling st2
                   else runCycles env st2)
             else stopPowerCycling st1))"
  by pat_completeness auto
termination
proof (relation "measure (\<lambda>(env, st). maxCycles - cycleCount st)", goal_cases)
  case 1
  show ?case by simp
next
  case 2
  then show ?case
    by (auto simp: doCycle_def act_def stopPowerCycling_def Let_def
        split: if_splits option.splits cycle_handle.splits)
qed

declare runCycles.simps [simp del]

definition startPowerCycling :: "(nat \<Rightarrow> cycle_env) \<Rightarrow> app \<Rightarrow> app" where
  "startPowerCycling env st =
     runCycles env (st\<lparr>cycleCount := 0, shouldContinue := True,
                       powerCycleIntervalRef := Some StopObject\<rparr>)"

text \<open>The compute windows in a trace of actions: one per executed cycle.\<close>

definition cyclesExecuted :: "app \<Rightarrow> nat" where
  "cyclesExecuted st = length (filter (\<lambda>a. a = Wait 20000) (actions st))"




section \<open>Example inputs\<close>

text \<open>A text of 128 and a text of 64 hexadecimal digits, in both cases of the letters.\<close>

definition example_signature :: string where
  "example_signature =
     ''00112233445566778899aabbccddeeff00112233445566778899AABBCCDDEEFF0123456789abcdef0123456789ABCDEFfedcba9876543210FEDCBA9876543210''"

definition example_pubkey :: string where
  "example_pubkey = ''d75a980182b10ab7d54bfed3c964073a0ee172f3daa62325af021a68f707511a''"

text \<open>A platform whose decoder rejects every byte above 127, and a text record whose
  payload is such a byte.\<close>

definition strict_platform :: platform where
  "strict_platform =
     \<lparr>decode = (\<lambda>bytes. if list_all (\<lambda>b. unat b < 128) bytes
                          then Returns (map (\<lambda>b. char_of (unat b)) bytes)
                          else Throws (Exn ''TypeError'' ''The encoded data was not valid'')),
      JSON_parse = (\<lambda>text. Throws (Exn ''SyntaxError'' ''Unexpected token''))\<rparr>"

definition undecodable_record :: ndef_record where
  "undecodable_record = \<lparr>recordType = ''text'', mediaType = None, recordId = None, data = Some [0xFF]\<rparr>"

text \<open>A continuous session started with the default options at time 0, once its scan has
  begun; and a reading event of a tag that reports 128 remaining steps.\<close>

definition default_session :: hook where
  "default_session =
     run plain_text_platform
       [CallStartScan None, Resume 0 ScanStarted 0, Resume 0 ScanStarted 0] (initial_hook True)"

definition work_reading :: reading_event where
  "work_reading = \<lparr>serialNumber = Some ''04:a2:19:6c'', records = [text_record ''R:i=128'']\<rparr>"

text \<open>Two environments of the power cycling: one in which the status stays
  \<open>computing\<close>, nobody cancels and every scan starts; and one that differs only in that
  the first scan of a cycle is refused.\<close>

definition steady_env :: "nat \<Rightarrow> cycle_env" where
  "steady_env n = \<lparr>statusAtStart = Computing, firstScan = None, secondScan = None,
                    stopInCycle = False, statusAtEnd = Computing, stopInGap = False\<rparr>"

definition refused_env :: "nat \<Rightarrow> cycle_env" where
  "refused_env n = \<lparr>statusAtStart = Computing,
                     firstScan = Some (Exn ''NotAllowedError'' ''NFC permission request denied''),
                     secondScan = None,
                     stopInCycle = False, statusAtEnd = Computing, stopInGap = False\<rparr>"

text \<open>The first four ticks of the default session, one per second: each finds neither
  condition of a deep reset and runs a light rescan to its end.\<close>

definition quiet_ticks :: "event list" where
  "quiet_ticks =
     [IntervalTick 1000, Resume 0 ScanStarted 1050, Resume 0 ScanStarted 1060,
      IntervalTick 2000, Resume 0 ScanStarted 2050, Resume 0 ScanStarted 2060,
      IntervalTick 3000, Resume 0 ScanStarted 3050, Resume 0 ScanStarted 3060,
      IntervalTick 4000, Resume 0 ScanStarted 4050, Resume 0 ScanStarted 4060]"



section \<open>Notions used in the statements and proofs\<close>

text \<open>
  The input a matcher state still has to read; a matcher all of whose results stand in a
  given relation to the state it started from, the relation being that the remaining
  input is a suffix of the former one, or that the captures extend the former ones; a
  state whose remaining input is made of characters of one kind; and an expression that
  cannot match in such a state.
\<close>

definition remaining :: "mstate \<Rightarrow> string" where
  "remaining st = fst (snd st)"

definition steps_in :: "(mstate \<Rightarrow> mstate \<Rightarrow> bool) \<Rightarrow> (mstate \<Rightarrow> mstate list) \<Rightarrow> bool" where
  "steps_in R f = (\<forall>st st'. st' \<in> set (f st) \<longrightarrow> R st st')"

definition shortens :: "mstate \<Rightarrow> mstate \<Rightarrow> bool" where
  "shortens st st' = (\<exists>zs. remaining st = zs @ remaining st')"

definition grows :: "mstate \<Rightarrow> mstate \<Rightarrow> bool" where
  "grows st st' = (\<exists>new. snd (snd st') = new @ snd (snd st))"

text \<open>An expression every match of which has set the capture group \<open>k\<close>.\<close>

definition sets_group :: "nat \<Rightarrow> bool \<Rightarrow> rx \<Rightarrow> bool" where
  "sets_group k icase r =
     (\<forall>st st'. st' \<in> set (rx_match icase r st) \<longrightarrow> map_of (snd (snd st')) k \<noteq> None)"

definition over :: "(char \<Rightarrow> bool) \<Rightarrow> mstate \<Rightarrow> bool" where
  "over P st = (\<forall>x\<in>set (remaining st). P x)"

definition fails_on :: "(char \<Rightarrow> bool) \<Rightarrow> bool \<Rightarrow> rx \<Rightarrow> bool" where
  "fails_on P icase r = (\<forall>st. over P st \<longrightarrow> rx_match icase r st = [])"

text \<open>The payload that a reading event is parsed to, when the listener emits it: the
  extractor returned a payload and the payload passes the test \<open>if (parsed)\<close>.\<close>

definition parsedPayload :: "platform \<Rightarrow> event \<Rightarrow> payload option" where
  "parsedPayload pf e =
     (case e of
        Reading now ev \<Rightarrow>
          (case extractPayload pf (records ev) of
             Returns (Some p) \<Rightarrow> if truthy p then Some p else None
           | Returns None \<Rightarrow> None
           | Throws x \<Rightarrow> None)
      | CallStartScan opts \<Rightarrow> None
      | CallStartSingleRead timeoutMs \<Rightarrow> None
      | CallStopScan \<Rightarrow> None
      | CallDisposer h \<Rightarrow> None
      | IntervalTick now \<Rightarrow> None
      | TimerFires h \<Rightarrow> None
      | Resume i res now \<Rightarrow> None)"

text \<open>An environment of the power cycling in which the status stays \<open>computing\<close>, nothing
  is cancelled and every scan starts.\<close>

definition steady :: "(nat \<Rightarrow> cycle_env) \<Rightarrow> bool" where
  "steady env = (\<forall>n. statusAtStart (env n) = Computing \<and> statusAtEnd (env n) = Computing
                    \<and> \<not> stopInCycle (env n) \<and> \<not> stopInGap (env n)
                    \<and> firstScan (env n) = None \<and> secondScan (env n) = None)"

text \<open>What holds in every state the hook can reach: a polling interval or a suspended
  operation exists only where Web NFC is supported, and the handles of the pending timers
  are older than the next handle.\<close>

definition wellformed :: "hook \<Rightarrow> bool" where
  "wellformed st =
     (((scanIntervalRef st \<noteq> None \<or> tasks st \<noteq> []) \<longrightarrow> isSupported st)
      \<and> (\<forall>t\<in>set (timers st). fst t < nextHandle st))"





section \<open>Properties of the progress mapping\<close>

lemma math_round_of_int: "math_round (rat_of_int r) = r"
  unfolding math_round_def by (rule floor_unique) simp_all

lemma pct_as_quotient:
  "rat_of_int 10 + rat_of_int (255 - c) / rat_of_int 255 * rat_of_int (95 - 10) + 1 / 2
     = rat_of_int (573 - 2 * c) / rat_of_int 6"
  by (simp add: field_simps)

lemma progress_closed_form:
  assumes "0 \<le> r" "r \<le> 255"
  shows "fst (progressFromRemaining (rat_of_int r)) = (573 - 2 * r) div 6"
proof -
  have c: "max 0 (min 255 r) = r" using assms by simp
  have "math_round (rat_of_int 10 + rat_of_int (255 - r) / rat_of_int 255 * rat_of_int (95 - 10))
          = (573 - 2 * r) div 6"
    unfolding math_round_def pct_as_quotient by (rule floor_divide_of_int_eq)
  moreover have "0 \<le> (573 - 2 * r) div 6" "(573 - 2 * r) div 6 \<le> 100"
    using assms by presburger+
  ultimately show ?thesis
    by (simp add: progressFromRemaining_def clamp01to100_def TOTAL_STEPS_def
        INIT_PROGRESS_def R_DONE_PROGRESS_def math_round_of_int c Let_def)
qed

text \<open>
  C4.  For every integer \<open>remaining\<close> in \<open>[0, 255]\<close>, \<open>progressFromRemaining\<close> returns a
  progress in \<open>[10, 95]\<close> and \<open>stepsTotal = 255\<close>; the progress does not increase when
  \<open>remaining\<close> increases; \<open>remaining = 255\<close> gives progress 10 and \<open>remaining = 0\<close> gives
  progress 95.
\<close>

theorem progressFromRemaining_bounds_monotone:
  "(\<forall>r::int. 0 \<le> r \<and> r \<le> 255 \<longrightarrow>
      10 \<le> fst (progressFromRemaining (rat_of_int r))
      \<and> fst (progressFromRemaining (rat_of_int r)) \<le> 95
      \<and> snd (progressFromRemaining (rat_of_int r)) = 255)
   \<and> (\<forall>r r'::int. 0 \<le> r \<and> r \<le> r' \<and> r' \<le> 255 \<longrightarrow>
      fst (progressFromRemaining (rat_of_int r')) \<le> fst (progressFromRemaining (rat_of_int r)))
   \<and> fst (progressFromRemaining (rat_of_int 255)) = INIT_PROGRESS
   \<and> fst (progressFromRemaining (rat_of_int 0)) = R_DONE_PROGRESS"
proof (intro conjI allI impI)
  fix r :: int
  assume r: "0 \<le> r \<and> r \<le> 255"
  then have p: "fst (progressFromRemaining (rat_of_int r)) = (573 - 2 * r) div 6"
    by (simp add: progress_closed_form)
  from r show "10 \<le> fst (progressFromRemaining (rat_of_int r))"
    unfolding p by presburger
  from r show "fst (progressFromRemaining (rat_of_int r)) \<le> 95"
    unfolding p by presburger
  show "snd (progressFromRemaining (rat_of_int r)) = 255"
    by (simp add: progressFromRemaining_def TOTAL_STEPS_def Let_def)
next
  fix r r' :: int
  assume rr: "0 \<le> r \<and> r \<le> r' \<and> r' \<le> 255"
  then have "fst (progressFromRemaining (rat_of_int r)) = (573 - 2 * r) div 6"
    and "fst (progressFromRemaining (rat_of_int r')) = (573 - 2 * r') div 6"
    by (simp_all add: progress_closed_form)
  moreover from rr have "(573 - 2 * r') div 6 \<le> (573 - 2 * r) div 6"
    by (intro zdiv_mono1) simp_all
  ultimately show "fst (progressFromRemaining (rat_of_int r')) \<le> fst (progressFromRemaining (rat_of_int r))"
    by simp
next
  show "fst (progressFromRemaining (rat_of_int 255)) = INIT_PROGRESS"
    using progress_closed_form [of 255] by (simp add: INIT_PROGRESS_def)
  show "fst (progressFromRemaining (rat_of_int 0)) = R_DONE_PROGRESS"
    using progress_closed_form [of 0] by (simp add: R_DONE_PROGRESS_def)
qed

theorem progressFromRemaining_bounds_monotone_witness:
  "10 \<le> fst (progressFromRemaining (rat_of_int 100))
   \<and> fst (progressFromRemaining (rat_of_int 100)) \<le> 95
   \<and> snd (progressFromRemaining (rat_of_int 100)) = 255
   \<and> fst (progressFromRemaining (rat_of_int 200)) \<le> fst (progressFromRemaining (rat_of_int 100))
   \<and> fst (progressFromRemaining (rat_of_int 100)) = 62
   \<and> fst (progressFromRemaining (rat_of_int 200)) = 28"
proof -
  have a: "(0::int) \<le> 100 \<and> (100::int) \<le> 255" by simp
  have b: "(0::int) \<le> 100 \<and> (100::int) \<le> 200 \<and> (200::int) \<le> 255" by simp
  note t = progressFromRemaining_bounds_monotone
  from t a have "10 \<le> fst (progressFromRemaining (rat_of_int 100))
      \<and> fst (progressFromRemaining (rat_of_int 100)) \<le> 95
      \<and> snd (progressFromRemaining (rat_of_int 100)) = 255"
    by blast
  moreover from t b have "fst (progressFromRemaining (rat_of_int 200))
      \<le> fst (progressFromRemaining (rat_of_int 100))"
    by blast
  moreover have "fst (progressFromRemaining (rat_of_int 100)) = 62"
    "fst (progressFromRemaining (rat_of_int 200)) = 28"
    using progress_closed_form [of 100] progress_closed_form [of 200] by simp_all
  ultimately show ?thesis by simp
qed
section \<open>Properties of the matcher and of the decoder on hexadecimal text\<close>

lemma steps_inI: "(\<And>st st'. st' \<in> set (f st) \<Longrightarrow> R st st') \<Longrightarrow> steps_in R f"
  unfolding steps_in_def by blast

lemma steps_inD: "steps_in R f \<Longrightarrow> st' \<in> set (f st) \<Longrightarrow> R st st'"
  unfolding steps_in_def by blast

lemma steps_in_seq:
  assumes "transp R" "steps_in R f" "steps_in R g"
  shows "steps_in R (\<lambda>st. concat (map g (f st)))"
proof (rule steps_inI)
  fix st st' assume "st' \<in> set (concat (map g (f st)))"
  then obtain m where m: "m \<in> set (f st)" "st' \<in> set (g m)" by auto
  from assms(1) steps_inD [OF assms(2) m(1)] steps_inD [OF assms(3) m(2)]
  show "R st st'" by (rule transpD)
qed

lemma steps_in_times:
  assumes "reflp R" "transp R" "steps_in R f"
  shows "steps_in R (rx_times n f)"
proof (induction n)
  case 0
  show ?case by (rule steps_inI) (simp add: reflpD [OF assms(1)])
next
  case (Suc n)
  have "rx_times (Suc n) f = (\<lambda>st. concat (map (rx_times n f) (f st)))" by (rule ext) simp
  with steps_in_seq [OF assms(2,3) Suc] show ?case by simp
qed

lemma steps_in_iter:
  assumes "reflp R" "transp R" "steps_in R f"
  shows "steps_in R (rx_iter n f)"
proof (induction n)
  case 0
  show ?case by (rule steps_inI) (simp add: reflpD [OF assms(1)])
next
  case (Suc n)
  show ?case
  proof (rule steps_inI)
    fix st st' assume a: "st' \<in> set (rx_iter (Suc n) f st)"
    show "R st st'"
    proof (cases "st' = st")
      case True
      with reflpD [OF assms(1)] show ?thesis by simp
    next
      case False
      with a obtain m where m: "m \<in> set (f st)" "st' \<in> set (rx_iter n f m)" by auto
      from assms(2) steps_inD [OF assms(3) m(1)] steps_inD [OF Suc m(2)]
      show ?thesis by (rule transpD)
    qed
  qed
qed

lemma steps_in_star:
  assumes "reflp R" "transp R" "steps_in R f"
  shows "steps_in R (rx_star f)"
proof (rule steps_inI)
  fix st st' assume "st' \<in> set (rx_star f st)"
  then show "R st st'"
    using steps_inD [OF steps_in_iter [OF assms]] by (simp add: rx_star_def)
qed

lemma steps_in_rx_match:
  assumes r: "reflp R" and t: "transp R"
    and read: "\<And>prev x xs caps. R (prev, x # xs, caps) (Some x, xs, caps)"
    and cap: "\<And>k st m. R st m \<Longrightarrow> R st (capture k st m)"
  shows "steps_in R (rx_match icase r)"
proof (induction r)
  case Eps
  show ?case by (rule steps_inI) (simp add: reflpD [OF r])
next
  case (Chr c)
  show ?case
    by (rule steps_inI) (auto simp: read split: list.splits if_splits prod.splits)
next
  case (Cls p)
  show ?case
    by (rule steps_inI) (auto simp: read split: list.splits if_splits prod.splits)
next
  case Bol
  show ?case by (rule steps_inI) (simp add: reflpD [OF r] split: if_splits)
next
  case Eol
  show ?case by (rule steps_inI) (simp add: reflpD [OF r] split: if_splits)
next
  case WordB
  show ?case by (rule steps_inI) (simp add: reflpD [OF r] split: if_splits)
next
  case (Seq a b)
  from steps_in_seq [OF t Seq] show ?case by simp
next
  case (Alt a b)
  show ?case
  proof (rule steps_inI)
    fix st st' assume "st' \<in> set (rx_match icase (Alt a b) st)"
    then consider "st' \<in> set (rx_match icase a st)" | "st' \<in> set (rx_match icase b st)" by auto
    then show "R st st'"
      by cases (rule steps_inD [OF Alt(1)], assumption, rule steps_inD [OF Alt(2)], assumption)
  qed
next
  case (Opt a)
  show ?case
  proof (rule steps_inI)
    fix st st' assume "st' \<in> set (rx_match icase (Opt a) st)"
    then consider "st' \<in> set (rx_match icase a st)" | "st' = st" by auto
    then show "R st st'"
    proof cases
      case 1
      then show ?thesis by (rule steps_inD [OF Opt])
    next
      case 2
      with reflpD [OF r] show ?thesis by simp
    qed
  qed
next
  case (Star a)
  from steps_in_star [OF r t Star] show ?case by simp
next
  case (Plus a)
  from steps_in_seq [OF t Plus steps_in_star [OF r t Plus]] show ?case by simp
next
  case (Times n a)
  from steps_in_times [OF r t Times] show ?case by simp
next
  case (AtLeast n a)
  from steps_in_seq [OF t steps_in_times [OF r t AtLeast] steps_in_star [OF r t AtLeast]]
  show ?case by simp
next
  case (Group k a)
  show ?case
  proof (rule steps_inI)
    fix st st' assume "st' \<in> set (rx_match icase (Group k a) st)"
    then obtain m where "m \<in> set (rx_match icase a st)" "st' = capture k st m" by auto
    with steps_inD [OF Group] show "R st st'" by (simp add: cap)
  qed
qed

lemma shortens_rx_match: "steps_in shortens (rx_match icase r)"
proof (rule steps_in_rx_match)
  show "reflp shortens" by (rule reflpI) (simp add: shortens_def)
  show "transp shortens"
  proof (rule transpI)
    fix x y z assume "shortens x y" "shortens y z"
    then obtain zs ys where "remaining x = zs @ remaining y" "remaining y = ys @ remaining z"
      unfolding shortens_def by blast
    then have "remaining x = (zs @ ys) @ remaining z" by simp
    then show "shortens x z" unfolding shortens_def ..
  qed
  show "shortens (prev, x # xs, caps) (Some x, xs, caps)" for prev x xs caps
    by (simp add: shortens_def remaining_def)
  show "shortens st (capture k st m)" if "shortens st m" for k st m
    using that by (cases st; cases m) (simp add: shortens_def remaining_def capture_def)
qed

lemma grows_rx_match: "steps_in grows (rx_match icase r)"
proof (rule steps_in_rx_match)
  show "reflp grows" by (rule reflpI) (simp add: grows_def)
  show "transp grows"
  proof (rule transpI)
    fix x y z assume "grows x y" "grows y z"
    then obtain n1 n2 where "snd (snd y) = n1 @ snd (snd x)" "snd (snd z) = n2 @ snd (snd y)"
      unfolding grows_def by blast
    then have "snd (snd z) = (n2 @ n1) @ snd (snd x)" by simp
    then show "grows x z" unfolding grows_def ..
  qed
  show "grows (prev, x # xs, caps) (Some x, xs, caps)" for prev x xs caps
    by (simp add: grows_def)
  show "grows st (capture k st m)" if "grows st m" for k st m
  proof -
    from that obtain new where "snd (snd m) = new @ snd (snd st)" unfolding grows_def ..
    then have "snd (snd (capture k st m)) = ((k, take (length (fst (snd st)) - length (fst (snd m))) (fst (snd st))) # new) @ snd (snd st)"
      by (cases st; cases m) (simp add: capture_def)
    then show ?thesis unfolding grows_def ..
  qed
qed

lemma over_consumed:
  assumes "over P st" "st' \<in> set (rx_match icase r st)"
  shows "over P st'"
proof -
  from steps_inD [OF shortens_rx_match assms(2)]
  obtain zs where "remaining st = zs @ remaining st'" unfolding shortens_def ..
  with assms(1) show ?thesis by (auto simp: over_def)
qed

lemma fails_chr: "(\<And>x. P x \<Longrightarrow> \<not> chr_matches icase c x) \<Longrightarrow> fails_on P icase (Chr c)"
  by (auto simp: fails_on_def over_def remaining_def split: list.splits)

lemma fails_seq1: "fails_on P icase a \<Longrightarrow> fails_on P icase (Seq a b)"
  by (simp add: fails_on_def)

lemma fails_seq2:
  assumes "fails_on P icase b"
  shows "fails_on P icase (Seq a b)"
  unfolding fails_on_def
proof (intro allI impI)
  fix st assume o: "over P st"
  have "rx_match icase b m = []" if "m \<in> set (rx_match icase a st)" for m
    using assms over_consumed [OF o that] unfolding fails_on_def by blast
  then show "rx_match icase (Seq a b) st = []" by simp
qed

lemma fails_group: "fails_on P icase a \<Longrightarrow> fails_on P icase (Group k a)"
  by (simp add: fails_on_def)

lemma search_fails:
  assumes "fails_on P icase r"
  shows "\<forall>x\<in>set s. P x \<Longrightarrow> rx_search icase r prev s = None"
proof (induction s arbitrary: prev)
  case Nil
  have "over P (prev, [], [])" by (simp add: over_def remaining_def)
  with assms show ?case by (simp add: fails_on_def)
next
  case (Cons c cs)
  then have "over P (prev, c # cs, [])" by (simp add: over_def remaining_def)
  with assms have "rx_match icase r (prev, c # cs, []) = []" by (simp add: fails_on_def)
  with Cons show ?case by simp
qed

lemma exec_fails:
  "fails_on P icase r \<Longrightarrow> \<forall>x\<in>set s. P x \<Longrightarrow> rx_exec icase r s = None"
  by (simp add: rx_exec_def search_fails [OF fails_group])

lemma test_fails:
  "fails_on P icase r \<Longrightarrow> \<forall>x\<in>set s. P x \<Longrightarrow> \<not> rx_test icase r s"
  by (simp add: rx_test_def exec_fails)

lemma hex_not_letter:
  "hex_any x \<Longrightarrow> \<not> chr_matches True CHR ''r'' x"
  "hex_any x \<Longrightarrow> \<not> chr_matches True CHR ''R'' x"
  "hex_any x \<Longrightarrow> \<not> chr_matches True CHR ''P'' x"
  by (auto simp: hex_any_def chr_matches_def to_upper_def)

lemma hex_fails_error: "fails_on hex_any True re_error"
  unfolding re_error_def cat_def lit_def
  by (simp, intro fails_seq1 fails_seq2 fails_chr hex_not_letter(1))

lemma hex_fails_init_k: "fails_on hex_any True re_init_k"
  unfolding re_init_k_def cat_def lit_def
  by (simp, intro fails_seq1 fails_seq2 fails_chr hex_not_letter(3))

lemma hex_fails_init_r: "fails_on hex_any True re_init_r"
  unfolding re_init_r_def cat_def lit_def
  by (simp, intro fails_seq1 fails_seq2 fails_chr hex_not_letter(3))

lemma hex_fails_r_work: "fails_on hex_any True re_r_work"
  unfolding re_r_work_def cat_def
  by (simp, intro fails_seq1 fails_chr hex_not_letter(2))

lemma hex_fails_r_line: "fails_on hex_any True re_r_line"
  unfolding re_r_line_def cat_def
  by (simp, intro fails_seq1 fails_seq2 fails_chr hex_not_letter(2))

lemma hex_fails_r_done: "fails_on hex_any True re_r_done"
  unfolding re_r_done_def cat_def
  by (simp, intro fails_seq1 fails_seq2 fails_chr hex_not_letter(2))

lemma iter_keeps_start: "st \<in> set (rx_iter n f st)"
  by (cases n) simp_all

lemma iter_class_to_end:
  "\<forall>x\<in>set s. cls_matches icase p x \<Longrightarrow> length s \<le> n \<Longrightarrow>
     \<exists>prev'. (prev', [], caps) \<in> set (rx_iter n (rx_match icase (Cls p)) (prev, s, caps))"
proof (induction s arbitrary: n prev)
  case Nil
  show ?case using iter_keeps_start by blast
next
  case (Cons x xs)
  then obtain m where n: "n = Suc m" by (cases n) auto
  with Cons.prems have "length xs \<le> m" "\<forall>x\<in>set xs. cls_matches icase p x" by simp_all
  from Cons.IH [OF this(2) this(1)]
  obtain prev' where "(prev', [], caps) \<in> set (rx_iter m (rx_match icase (Cls p)) (Some x, xs, caps))"
    by blast
  with Cons.prems n show ?case by auto
qed

lemma hex_upper_all: "list_all (cls_matches True hex_upper) ''0123456789abcdefABCDEF''"
  by code_simp

lemma hex_upper_icase: "hex_any x \<Longrightarrow> cls_matches True hex_upper x"
  using hex_upper_all unfolding hex_any_def list_all_iff by blast

lemma hex_only_matches:
  assumes "t \<noteq> []" "\<forall>x\<in>set t. hex_any x"
  shows "rx_test True re_hex_only t"
proof -
  from assms obtain c cs where t: "t = c # cs" by (cases t) auto
  let ?f = "rx_match True (Cls hex_upper)"
  from assms t have c: "cls_matches True hex_upper c" and cs: "\<forall>x\<in>set cs. cls_matches True hex_upper x"
    by (simp_all add: hex_upper_icase)
  from iter_class_to_end [OF cs order_refl]
  obtain prev' where e: "(prev', [], []) \<in> set (rx_iter (length cs) ?f (Some c, cs, []))" by blast
  have "(prev', [], []) \<in> set (rx_match True (cat [Bol, Plus (Cls hex_upper), Eol]) (None, t, []))"
    using c e by (simp add: cat_def t rx_star_def)
  then have "rx_match True (Group 0 re_hex_only) (None, t, []) \<noteq> []"
    by (auto simp: re_hex_only_def)
  then show ?thesis
    by (auto simp: rx_test_def rx_exec_def t split: list.splits)
qed

lemma hex_not_space: "hex_any x \<Longrightarrow> \<not> is_space x"
  by (auto simp: hex_any_def is_space_def)

lemma trim_no_space:
  assumes "\<forall>x\<in>set t. \<not> is_space x"
  shows "trim t = t"
proof -
  have d: "dropWhile is_space s = s" if "\<forall>x\<in>set s. \<not> is_space x" for s
    using that by (cases s) auto
  from assms have "\<forall>x\<in>set (rev t). \<not> is_space x" by simp
  with assms show ?thesis by (simp add: trim_def d)
qed

lemma parse_hex_128:
  assumes h: "\<forall>x\<in>set t. hex_any x" and l: "length t = 128"
  shows "parseEdSignTextStatus t = Some ((status_of PH_DONE)\<lparr>signature := Some t, progress := Some 100\<rparr>)"
proof -
  from h have tr: "trim t = t" by (simp add: trim_no_space hex_not_space)
  from l have ne: "t \<noteq> []" by auto
  show ?thesis
    by (simp add: parseEdSignTextStatus_def tr Let_def l
        test_fails [OF hex_fails_error h] test_fails [OF hex_fails_init_k h]
        test_fails [OF hex_fails_init_r h] exec_fails [OF hex_fails_r_work h]
        test_fails [OF hex_fails_r_line h] test_fails [OF hex_fails_r_done h]
        hex_only_matches [OF ne h])
qed

lemma parse_hex_64:
  assumes h: "\<forall>x\<in>set t. hex_any x" and l: "length t = 64"
  shows "parseEdSignTextStatus t = Some ((status_of PH_IDLE)\<lparr>pubkey := Some t\<rparr>)"
proof -
  from h have tr: "trim t = t" by (simp add: trim_no_space hex_not_space)
  from l have ne: "t \<noteq> []" by auto
  show ?thesis
    by (simp add: parseEdSignTextStatus_def tr Let_def l
        test_fails [OF hex_fails_error h] test_fails [OF hex_fails_init_k h]
        test_fails [OF hex_fails_init_r h] exec_fails [OF hex_fails_r_work h]
        test_fails [OF hex_fails_r_line h] test_fails [OF hex_fails_r_done h]
        hex_only_matches [OF ne h])
qed

text \<open>The capture groups that the source reads are set by every match.\<close>

lemma sets_group_Group: "sets_group k icase (Group k a)"
  unfolding sets_group_def
proof (intro allI impI)
  fix st st' assume "st' \<in> set (rx_match icase (Group k a) st)"
  then obtain m where "st' = capture k st m" by auto
  then show "map_of (snd (snd st')) k \<noteq> None"
    by (cases st; cases m) (simp add: capture_def)
qed

lemma sets_group_seq2: "sets_group k icase b \<Longrightarrow> sets_group k icase (Seq a b)"
  unfolding sets_group_def by auto

lemma sets_group_seq1:
  assumes "sets_group k icase a"
  shows "sets_group k icase (Seq a b)"
  unfolding sets_group_def
proof (intro allI impI)
  fix st st' assume "st' \<in> set (rx_match icase (Seq a b) st)"
  then obtain m where m: "m \<in> set (rx_match icase a st)" "st' \<in> set (rx_match icase b m)" by auto
  from assms m(1) have "map_of (snd (snd m)) k \<noteq> None" unfolding sets_group_def by blast
  moreover from steps_inD [OF grows_rx_match m(2)]
  obtain new where "snd (snd st') = new @ snd (snd m)" unfolding grows_def ..
  ultimately show "map_of (snd (snd st')) k \<noteq> None"
    by (auto simp: map_add_def split: option.splits)
qed

lemma sets_group_outer: "sets_group k icase a \<Longrightarrow> sets_group k icase (Group j a)"
  unfolding sets_group_def
proof (intro allI impI)
  fix st st' assume a: "\<forall>st st'. st' \<in> set (rx_match icase a st) \<longrightarrow> map_of (snd (snd st')) k \<noteq> None"
    and "st' \<in> set (rx_match icase (Group j a) st)"
  then obtain m where m: "m \<in> set (rx_match icase a st)" "st' = capture j st m" by auto
  with a have "map_of (snd (snd m)) k \<noteq> None" by blast
  with m(2) show "map_of (snd (snd st')) k \<noteq> None"
    by (cases st; cases m) (auto simp: capture_def)
qed

lemma search_result:
  "rx_search icase r prev s = Some m \<Longrightarrow> \<exists>st. m \<in> set (rx_match icase r st)"
proof (induction s arbitrary: prev)
  case Nil
  then have "m \<in> set (rx_match icase r (prev, [], []))" by (auto split: list.splits)
  then show ?case ..
next
  case (Cons c cs)
  show ?case
  proof (cases "rx_match icase r (prev, c # cs, [])")
    case Nil
    with Cons show ?thesis by simp
  next
    case (Cons m' ms)
    with Cons.prems have "m = m'" by simp
    with Cons have "m \<in> set (rx_match icase r (prev, c # cs, []))" by simp
    then show ?thesis ..
  qed
qed

lemma exec_sets_group:
  assumes "sets_group k icase r" "rx_exec icase r s = Some caps"
  shows "captured caps k \<noteq> None"
proof -
  from assms(2) obtain m where m: "rx_search icase (Group 0 r) None s = Some m" "caps = snd (snd m)"
    by (auto simp: rx_exec_def)
  from search_result [OF m(1)] obtain st where "m \<in> set (rx_match icase (Group 0 r) st)" ..
  with sets_group_outer [OF assms(1), of 0] m(2) show ?thesis
    unfolding sets_group_def captured_def by blast
qed

lemma groups_read_are_set:
  "rx_exec True re_r_work s = Some caps \<Longrightarrow> captured caps 1 \<noteq> None"
  "rx_exec False re_number s = Some caps \<Longrightarrow> captured caps 1 \<noteq> None"
  "rx_exec True re_pubkey s = Some caps \<Longrightarrow> captured caps 2 \<noteq> None"
  "rx_exec True re_uid s = Some caps \<Longrightarrow> captured caps 2 \<noteq> None"
  "rx_exec True re_hex_run s = Some caps \<Longrightarrow> captured caps 0 \<noteq> None"
proof -
  have "sets_group 1 True re_r_work"
    unfolding re_r_work_def cat_def
    by (simp, intro sets_group_seq2 sets_group_seq1 sets_group_Group)
  then show "rx_exec True re_r_work s = Some caps \<Longrightarrow> captured caps 1 \<noteq> None"
    by (rule exec_sets_group)
  have "sets_group 1 False re_number"
    unfolding re_number_def by (rule sets_group_Group)
  then show "rx_exec False re_number s = Some caps \<Longrightarrow> captured caps 1 \<noteq> None"
    by (rule exec_sets_group)
  have "sets_group 2 True re_pubkey"
    unfolding re_pubkey_def cat_def
    by (simp, intro sets_group_seq2 sets_group_seq1 sets_group_Group)
  then show "rx_exec True re_pubkey s = Some caps \<Longrightarrow> captured caps 2 \<noteq> None"
    by (rule exec_sets_group)
  have "sets_group 2 True re_uid"
    unfolding re_uid_def cat_def
    by (simp, intro sets_group_seq2 sets_group_seq1 sets_group_Group)
  then show "rx_exec True re_uid s = Some caps \<Longrightarrow> captured caps 2 \<noteq> None"
    by (rule exec_sets_group)
  assume "rx_exec True re_hex_run s = Some caps"
  then obtain m where m: "rx_search True (Group 0 re_hex_run) None s = Some m" "caps = snd (snd m)"
    by (auto simp: rx_exec_def)
  from search_result [OF m(1)] obtain st where "m \<in> set (rx_match True (Group 0 re_hex_run) st)" ..
  with sets_group_Group [of 0 True re_hex_run] m(2) show "captured caps 0 \<noteq> None"
    unfolding sets_group_def captured_def by blast
qed

section \<open>Decoding of the example frames\<close>

lemma plain_text_roundtrip:
  "safeDecode (decode plain_text_platform) (data (text_record t)) = Returns t"
proof -
  have "char_of (unat (of_nat (of_char c) :: 8 word)) = c" for c :: char
    by (simp add: unat_of_nat take_bit_nat_eq_self)
  then show ?thesis
    by (simp add: safeDecode_def catch_def plain_text_platform_def text_record_def o_def)
qed

lemma statusRecords_single:
  "statusRecords plain_text_platform [text_record t]
     = Returns (map_option (\<lambda>s. Status (backfill s)) (parseEdSignTextStatus t))"
proof -
  have "recordType (text_record t) = ''text''" by (simp add: text_record_def)
  then show ?thesis
    by (simp add: plain_text_roundtrip then_do_def split: option.splits)
qed

lemma parse_R_done: "parseEdSignTextStatus ''R:done'' = Some (status_of PH_R_WORK)"
  by code_simp

lemma parse_Rdone: "map_option backfill (parseEdSignTextStatus ''Rdone'')
     = Some ((status_of PH_R_DONE)\<lparr>progress := Some 97, stepsTotal := Some 255\<rparr>)"
  by code_simp

lemma parse_init_k:
  "map_option backfill (parseEdSignTextStatus ''PH_INIT_K'')
     = Some ((status_of PH_INIT_K)\<lparr>progress := Some 10\<rparr>)"
  by code_simp

lemma parse_r_work_128:
  "map_option backfill (parseEdSignTextStatus ''R:i=128'')
     = Some ((status_of PH_R_WORK)\<lparr>stepsRemaining := Some 128, progress := Some 52,
                                      stepsTotal := Some 255\<rparr>)"
  by code_simp

lemma parse_busy: "map_option backfill (parseEdSignTextStatus ''busy'') = Some (status_of BUSY)"
  by code_simp

lemma parse_garbage: "parseEdSignTextStatus ''xyz garbage'' = None"
  by code_simp

lemma backfill_done:
  "backfill ((status_of PH_DONE)\<lparr>signature := Some t, progress := Some 100\<rparr>)
     = (status_of PH_DONE)\<lparr>signature := Some t, progress := Some 100\<rparr>"
  by (simp add: backfill_def status_of_def)

lemma backfill_idle:
  "backfill ((status_of PH_IDLE)\<lparr>pubkey := Some t\<rparr>) = (status_of PH_IDLE)\<lparr>pubkey := Some t\<rparr>"
  by (simp add: backfill_def status_of_def)

text \<open>
  C1.  The frame \<open>R:done\<close> starts with \<open>R\<close> at a word boundary, so the fallback test for
  a line of the work phase, which comes before the test for \<open>R:done\<close>, takes it: the
  decoder returns \<open>PH_R_WORK\<close> without a step count, the frame extractor adds no progress
  to it, and the variant \<open>PH_R_DONE\<close> with progress 97 is reached only by a text such as
  \<open>Rdone\<close> that the fallback test does not match.
\<close>

theorem R_done_frame_decoded_as_R_WORK:
  "parseEdSignTextStatus ''R:done'' = Some (status_of PH_R_WORK)
   \<and> statusRecords plain_text_platform [text_record ''R:done'']
       = Returns (Some (Status (status_of PH_R_WORK)))
   \<and> state (status_of PH_R_WORK) = PH_R_WORK
   \<and> progress (status_of PH_R_WORK) = None
   \<and> statusRecords plain_text_platform [text_record ''Rdone'']
       = Returns (Some (Status ((status_of PH_R_DONE)\<lparr>progress := Some 97, stepsTotal := Some 255\<rparr>)))"
proof -
  have "backfill (status_of PH_R_WORK) = status_of PH_R_WORK"
    by (simp add: backfill_def status_of_def)
  then have "statusRecords plain_text_platform [text_record ''R:done'']
       = Returns (Some (Status (status_of PH_R_WORK)))"
    unfolding statusRecords_single by (simp add: parse_R_done)
  moreover have "statusRecords plain_text_platform [text_record ''Rdone'']
       = Returns (Some (Status ((status_of PH_R_DONE)\<lparr>progress := Some 97, stepsTotal := Some 255\<rparr>)))"
    unfolding statusRecords_single using parse_Rdone by auto
  ultimately show ?thesis
    by (simp add: parse_R_done) (simp add: status_of_def)
qed

text \<open>
  C6.  The status decoder followed by the fill-in of step 3 of the frame extractor maps
  \<open>PH_INIT_K\<close> to \<open>PH_INIT_K\<close> with progress 10; \<open>R:i=128\<close> to \<open>PH_R_WORK\<close> with 128 steps
  remaining, progress 52 and 255 steps in total; every text of 128 hexadecimal digits to
  \<open>PH_DONE\<close> with progress 100 and that text as signature; every text of 64 hexadecimal
  digits to \<open>PH_IDLE\<close> with that text as public key; \<open>busy\<close> to \<open>BUSY\<close>; and for
  \<open>xyz garbage\<close> the decoder returns \<open>null\<close> and step 3 returns nothing.
\<close>

theorem decoder_maps_example_frames:
  "statusRecords plain_text_platform [text_record ''PH_INIT_K'']
     = Returns (Some (Status ((status_of PH_INIT_K)\<lparr>progress := Some 10\<rparr>)))
   \<and> statusRecords plain_text_platform [text_record ''R:i=128'']
     = Returns (Some (Status ((status_of PH_R_WORK)
          \<lparr>stepsRemaining := Some 128, progress := Some 52, stepsTotal := Some 255\<rparr>)))
   \<and> (\<forall>t. length t = 128 \<and> (\<forall>c\<in>set t. hex_any c) \<longrightarrow>
         statusRecords plain_text_platform [text_record t]
           = Returns (Some (Status ((status_of PH_DONE)\<lparr>signature := Some t, progress := Some 100\<rparr>))))
   \<and> (\<forall>t. length t = 64 \<and> (\<forall>c\<in>set t. hex_any c) \<longrightarrow>
         statusRecords plain_text_platform [text_record t]
           = Returns (Some (Status ((status_of PH_IDLE)\<lparr>pubkey := Some t\<rparr>))))
   \<and> statusRecords plain_text_platform [text_record ''busy'']
     = Returns (Some (Status (status_of BUSY)))
   \<and> parseEdSignTextStatus ''xyz garbage'' = None
   \<and> statusRecords plain_text_platform [text_record ''xyz garbage''] = Returns None"
proof (intro conjI allI impI)
  show "statusRecords plain_text_platform [text_record ''PH_INIT_K'']
     = Returns (Some (Status ((status_of PH_INIT_K)\<lparr>progress := Some 10\<rparr>)))"
    unfolding statusRecords_single using parse_init_k by auto
  show "statusRecords plain_text_platform [text_record ''R:i=128'']
     = Returns (Some (Status ((status_of PH_R_WORK)
          \<lparr>stepsRemaining := Some 128, progress := Some 52, stepsTotal := Some 255\<rparr>)))"
    unfolding statusRecords_single using parse_r_work_128 by auto
  show "statusRecords plain_text_platform [text_record ''busy'']
     = Returns (Some (Status (status_of BUSY)))"
    unfolding statusRecords_single using parse_busy by auto
  show "parseEdSignTextStatus ''xyz garbage'' = None" by (rule parse_garbage)
  show "statusRecords plain_text_platform [text_record ''xyz garbage''] = Returns None"
    unfolding statusRecords_single by (simp add: parse_garbage)
next
  fix t :: string
  assume "length t = 128 \<and> (\<forall>c\<in>set t. hex_any c)"
  then show "statusRecords plain_text_platform [text_record t]
           = Returns (Some (Status ((status_of PH_DONE)\<lparr>signature := Some t, progress := Some 100\<rparr>)))"
    unfolding statusRecords_single by (simp add: parse_hex_128 backfill_done)
next
  fix t :: string
  assume "length t = 64 \<and> (\<forall>c\<in>set t. hex_any c)"
  then show "statusRecords plain_text_platform [text_record t]
           = Returns (Some (Status ((status_of PH_IDLE)\<lparr>pubkey := Some t\<rparr>)))"
    unfolding statusRecords_single by (simp add: parse_hex_64 backfill_idle)
qed

theorem decoder_maps_example_frames_witness:
  "length example_signature = 128 \<and> list_all hex_any example_signature
   \<and> statusRecords plain_text_platform [text_record example_signature]
       = Returns (Some (Status ((status_of PH_DONE)
                          \<lparr>signature := Some example_signature, progress := Some 100\<rparr>)))
   \<and> length example_pubkey = 64 \<and> list_all hex_any example_pubkey
   \<and> statusRecords plain_text_platform [text_record example_pubkey]
       = Returns (Some (Status ((status_of PH_IDLE)\<lparr>pubkey := Some example_pubkey\<rparr>)))"
proof -
  have s: "length example_signature = 128" "list_all hex_any example_signature"
    by code_simp+
  have p: "length example_pubkey = 64" "list_all hex_any example_pubkey"
    by code_simp+
  from s have s': "length example_signature = 128 \<and> (\<forall>c\<in>set example_signature. hex_any c)"
    by (simp add: list_all_iff)
  from p have p': "length example_pubkey = 64 \<and> (\<forall>c\<in>set example_pubkey. hex_any c)"
    by (simp add: list_all_iff)
  note t = decoder_maps_example_frames
  from t s' have "statusRecords plain_text_platform [text_record example_signature]
       = Returns (Some (Status ((status_of PH_DONE)
                          \<lparr>signature := Some example_signature, progress := Some 100\<rparr>)))"
    by blast
  moreover from t p' have "statusRecords plain_text_platform [text_record example_pubkey]
       = Returns (Some (Status ((status_of PH_IDLE)\<lparr>pubkey := Some example_pubkey\<rparr>)))"
    by blast
  ultimately show ?thesis using s p by simp
qed

section \<open>The frame extractor never throws\<close>

lemma safeDecode_total:
  "safeDecode dec d =
     Returns (case d of None \<Rightarrow> []
              | Some bytes \<Rightarrow> (case dec bytes of Returns s \<Rightarrow> s | Throws e \<Rightarrow> []))"
  by (simp add: safeDecode_def catch_def split: option.splits outcome.splits)

lemma safeDecode_of_failure: "dec bytes = Throws e \<Longrightarrow> safeDecode dec (Some bytes) = Returns []"
  by (simp add: safeDecode_total)

lemma safeDecode_caught:
  "safeDecode (\<lambda>bytes. catch (dec bytes) (\<lambda>e. Returns [])) d = safeDecode dec d"
  by (simp add: safeDecode_total catch_def split: option.splits outcome.splits)

lemma jsonRecords_returns: "\<exists>r. jsonRecords pf rs = Returns r"
  by (induction rs) (auto simp: safeDecode_total then_do_def catch_def split: outcome.splits)

lemma textJsonRecords_returns: "\<exists>r. textJsonRecords pf rs = Returns r"
  by (induction rs) (auto simp: safeDecode_total then_do_def catch_def split: outcome.splits)

lemma statusRecords_returns: "\<exists>r. statusRecords pf rs = Returns r"
  by (induction rs) (auto simp: safeDecode_total then_do_def split: option.splits)

lemma textLines_returns: "\<exists>ts. textLines pf rs = Returns ts"
  by (induction rs) (auto simp: safeDecode_total then_do_def)

lemma extractPayload_returns: "\<exists>r. extractPayload pf rs = Returns r"
proof -
  obtain r1 r2 r3 ts where
    "jsonRecords pf rs = Returns r1" "textJsonRecords pf rs = Returns r2"
    "statusRecords pf rs = Returns r3" "textLines pf rs = Returns ts"
    using jsonRecords_returns textJsonRecords_returns statusRecords_returns textLines_returns
    by metis
  then show ?thesis
    by (simp add: extractPayload_def then_do_def split: option.splits)
qed

lemma textLines_empty:
  "textLines pf rs = Returns []
     \<longleftrightarrow> (\<forall>r\<in>set rs. recordType r = ''text'' \<longrightarrow> safeDecode (decode pf) (data r) = Returns [])"
proof (induction rs)
  case Nil
  show ?case by simp
next
  case (Cons r rs)
  obtain ts where ts: "textLines pf rs = Returns ts" using textLines_returns by blast
  obtain s where s: "safeDecode (decode pf) (data r) = Returns s"
    by (simp add: safeDecode_total)
  from Cons ts s show ?case by (auto simp: then_do_def)
qed

lemma rawPayload_None: "rawPayload texts = None \<longleftrightarrow> texts = []"
  by (simp add: rawPayload_def Let_def)

lemma extractPayload_None:
  "extractPayload pf rs = Returns None
     \<longleftrightarrow> jsonRecords pf rs = Returns None \<and> textJsonRecords pf rs = Returns None
         \<and> statusRecords pf rs = Returns None \<and> textLines pf rs = Returns []"
proof -
  obtain r1 r2 r3 ts where
    "jsonRecords pf rs = Returns r1" "textJsonRecords pf rs = Returns r2"
    "statusRecords pf rs = Returns r3" "textLines pf rs = Returns ts"
    using jsonRecords_returns textJsonRecords_returns statusRecords_returns textLines_returns
    by metis
  then show ?thesis
    by (auto simp: extractPayload_def then_do_def rawPayload_None split: option.splits)
qed

lemma loops_with_caught_decoder:
  "jsonRecords (pf\<lparr>decode := \<lambda>bytes. catch (decode pf bytes) (\<lambda>e. Returns [])\<rparr>) rs = jsonRecords pf rs"
  "textJsonRecords (pf\<lparr>decode := \<lambda>bytes. catch (decode pf bytes) (\<lambda>e. Returns [])\<rparr>) rs
     = textJsonRecords pf rs"
  "statusRecords (pf\<lparr>decode := \<lambda>bytes. catch (decode pf bytes) (\<lambda>e. Returns [])\<rparr>) rs
     = statusRecords pf rs"
  "textLines (pf\<lparr>decode := \<lambda>bytes. catch (decode pf bytes) (\<lambda>e. Returns [])\<rparr>) rs = textLines pf rs"
  by (induction rs) (simp_all add: safeDecode_caught cong: if_cong option.case_cong)

lemma rawPayload_shape:
  assumes "texts \<noteq> []"
  shows "\<exists>i. rawPayload texts = Some (Info i)
           \<and> (rawText i = Some (trim (join [CHR 0x0A] texts))
                \<or> publicKey i = Some (trim (join [CHR 0x0A] texts)))"
  using assms by (simp add: rawPayload_def Let_def)

lemma extractPayload_fallback:
  assumes "jsonRecords pf rs = Returns None" "textJsonRecords pf rs = Returns None"
    "statusRecords pf rs = Returns None" "textLines pf rs = Returns texts"
  shows "extractPayload pf rs = Returns (rawPayload texts)"
  using assms by (simp add: extractPayload_def then_do_def)

text \<open>
  C9, as the code has it.  For every reading event whose records are present, the frame
  extractor returns and does not throw, whatever the decoder and \<open>JSON.parse\<close> do.  A
  record whose payload fails to decode is read as the empty text, and the extraction is
  the one of a decoder that yields the empty text instead of failing.  The result is
  \<open>null\<close> exactly when no record yields structured data or a status and no text record
  decodes to a text that is not empty; as soon as one text record carries text, step 4
  returns a payload that holds the joined text, as \<open>rawText\<close> with or without labeled
  fields, or as \<open>publicKey\<close> when it is 64 hexadecimal digits.
\<close>

theorem extractor_returns_without_throwing:
  "(\<exists>r. extractPayload pf rs = Returns r)
   \<and> (\<exists>r st'. tryParseFromEvent pf ev st = (Returns r, st'))
   \<and> (\<forall>bytes e. decode pf bytes = Throws e \<longrightarrow> safeDecode (decode pf) (Some bytes) = Returns [])
   \<and> extractPayload (pf\<lparr>decode := \<lambda>bytes. catch (decode pf bytes) (\<lambda>e. Returns [])\<rparr>) rs
       = extractPayload pf rs
   \<and> (extractPayload pf rs = Returns None
        \<longleftrightarrow> jsonRecords pf rs = Returns None \<and> textJsonRecords pf rs = Returns None
            \<and> statusRecords pf rs = Returns None
            \<and> (\<forall>r\<in>set rs. recordType r = ''text'' \<longrightarrow> safeDecode (decode pf) (data r) = Returns []))
   \<and> (\<forall>texts. jsonRecords pf rs = Returns None \<and> textJsonRecords pf rs = Returns None
          \<and> statusRecords pf rs = Returns None \<and> textLines pf rs = Returns texts
          \<and> texts \<noteq> []
        \<longrightarrow> (\<exists>i. extractPayload pf rs = Returns (Some (Info i))
                 \<and> (rawText i = Some (trim (join [CHR 0x0A] texts))
                      \<or> publicKey i = Some (trim (join [CHR 0x0A] texts)))))"
proof (intro conjI)
  show "\<exists>r. extractPayload pf rs = Returns r" by (rule extractPayload_returns)
  show "\<exists>r st'. tryParseFromEvent pf ev st = (Returns r, st')"
    using extractPayload_returns [of pf "records ev"] by (auto simp: tryParseFromEvent_def Let_def)
  show "\<forall>bytes e. decode pf bytes = Throws e \<longrightarrow> safeDecode (decode pf) (Some bytes) = Returns []"
    by (simp add: safeDecode_of_failure)
  show "extractPayload (pf\<lparr>decode := \<lambda>bytes. catch (decode pf bytes) (\<lambda>e. Returns [])\<rparr>) rs
       = extractPayload pf rs"
    by (simp add: extractPayload_def loops_with_caught_decoder cong: option.case_cong)
  show "extractPayload pf rs = Returns None
        \<longleftrightarrow> jsonRecords pf rs = Returns None \<and> textJsonRecords pf rs = Returns None
            \<and> statusRecords pf rs = Returns None
            \<and> (\<forall>r\<in>set rs. recordType r = ''text'' \<longrightarrow> safeDecode (decode pf) (data r) = Returns [])"
    by (simp add: extractPayload_None textLines_empty)
  show "\<forall>texts. jsonRecords pf rs = Returns None \<and> textJsonRecords pf rs = Returns None
          \<and> statusRecords pf rs = Returns None \<and> textLines pf rs = Returns texts
          \<and> texts \<noteq> []
        \<longrightarrow> (\<exists>i. extractPayload pf rs = Returns (Some (Info i))
                 \<and> (rawText i = Some (trim (join [CHR 0x0A] texts))
                      \<or> publicKey i = Some (trim (join [CHR 0x0A] texts))))"
    using rawPayload_shape by (auto simp: extractPayload_fallback)
qed

theorem extractor_returns_without_throwing_witness:
  "decode strict_platform [0xFF] = Throws (Exn ''TypeError'' ''The encoded data was not valid'')
   \<and> safeDecode (decode strict_platform) (Some [0xFF]) = Returns []
   \<and> extractPayload strict_platform [undecodable_record] = Returns None
   \<and> textLines plain_text_platform [text_record ''xyz garbage''] = Returns [''xyz garbage'']
   \<and> (\<exists>i. extractPayload plain_text_platform [text_record ''xyz garbage'']
              = Returns (Some (Info i))
            \<and> (rawText i = Some (trim (join [CHR 0x0A] [''xyz garbage'']))
                 \<or> publicKey i = Some (trim (join [CHR 0x0A] [''xyz garbage'']))))"
proof -
  have d: "decode strict_platform [0xFF] = Throws (Exn ''TypeError'' ''The encoded data was not valid'')"
    by (simp add: strict_platform_def)
  note t = extractor_returns_without_throwing [of strict_platform "[undecodable_record]"]
  from t d have s: "safeDecode (decode strict_platform) (Some [0xFF]) = Returns []"
    by blast
  have "jsonRecords strict_platform [undecodable_record] = Returns None"
    "textJsonRecords strict_platform [undecodable_record] = Returns None"
    "statusRecords strict_platform [undecodable_record] = Returns None"
    by code_simp+
  moreover have "\<forall>r\<in>set [undecodable_record].
      recordType r = ''text'' \<longrightarrow> safeDecode (decode strict_platform) (data r) = Returns []"
    using s by (simp add: undecodable_record_def)
  ultimately have n: "extractPayload strict_platform [undecodable_record] = Returns None"
    using t by blast
  have g: "jsonRecords plain_text_platform [text_record ''xyz garbage''] = Returns None"
    "textJsonRecords plain_text_platform [text_record ''xyz garbage''] = Returns None"
    "statusRecords plain_text_platform [text_record ''xyz garbage''] = Returns None"
    "textLines plain_text_platform [text_record ''xyz garbage''] = Returns [''xyz garbage'']"
    by code_simp+
  note u = extractor_returns_without_throwing
             [of plain_text_platform "[text_record ''xyz garbage'']"]
  from u g have "\<exists>i. extractPayload plain_text_platform [text_record ''xyz garbage'']
              = Returns (Some (Info i))
            \<and> (rawText i = Some (trim (join [CHR 0x0A] [''xyz garbage'']))
                 \<or> publicKey i = Some (trim (join [CHR 0x0A] [''xyz garbage''])))"
    by blast
  with d s n g(4) show ?thesis by blast
qed

text \<open>
  The claim as the specification states it fails on the frame \<open>xyz garbage\<close>: no record
  yields structured data, the decoder knows no status for it and it has no labeled field,
  yet the extractor returns a payload.
\<close>

theorem unrecognized_text_yields_raw_payload:
  "jsonRecords plain_text_platform [text_record ''xyz garbage''] = Returns None
   \<and> textJsonRecords plain_text_platform [text_record ''xyz garbage''] = Returns None
   \<and> statusRecords plain_text_platform [text_record ''xyz garbage''] = Returns None
   \<and> extractPayload plain_text_platform [text_record ''xyz garbage'']
       = Returns (Some (Info \<lparr>rawText = Some ''xyz garbage'', publicKey = None, chipId = None\<rparr>))
   \<and> extractPayload plain_text_platform [text_record ''xyz garbage''] \<noteq> Returns None"
proof -
  have "jsonRecords plain_text_platform [text_record ''xyz garbage''] = Returns None"
    "textJsonRecords plain_text_platform [text_record ''xyz garbage''] = Returns None"
    "statusRecords plain_text_platform [text_record ''xyz garbage''] = Returns None"
    "extractPayload plain_text_platform [text_record ''xyz garbage'']
       = Returns (Some (Info \<lparr>rawText = Some ''xyz garbage'', publicKey = None, chipId = None\<rparr>))"
    by code_simp+
  then show ?thesis by simp
qed

section \<open>The emitter and the timestamps\<close>

lemma show_nat_nonempty: "show_nat n \<noteq> []"
  by (subst show_nat.simps) simp

lemma stringify_value_nonempty: "stringify_value j \<noteq> []"
  by (cases j) (simp_all add: show_int_def show_nat_nonempty quote_def)

lemma JSON_stringify_nonempty: "JSON_stringify p \<noteq> []"
  by (simp add: JSON_stringify_def stringify_value_nonempty)

lemma reading_lastUpdateTs:
  assumes "listenersAttached st"
  shows "lastUpdateTsRef (onReadingEvent pf now ev st) =
           (case parsedPayload pf (Reading now ev) of
              Some p \<Rightarrow> if JSON_stringify p \<noteq> lastPayloadRef st then now else lastUpdateTsRef st
            | None \<Rightarrow> lastUpdateTsRef st)"
  using assms
  by (simp add: onReadingEvent_def tryParseFromEvent_def emitIfChanged_def setTimeout_def
      parsedPayload_def Let_def split: outcome.splits option.splits)

lemma reading_lastDeepResetTs:
  "lastDeepResetTsRef (onReadingEvent pf now ev st) = lastDeepResetTsRef st"
  by (simp add: onReadingEvent_def tryParseFromEvent_def emitIfChanged_def setTimeout_def
      Let_def split: outcome.splits option.splits)

lemma reading_emits:
  assumes "listenersAttached st"
  shows "onReadingCalls (onReadingEvent pf now ev st) =
           (case parsedPayload pf (Reading now ev) of
              Some p \<Rightarrow> if JSON_stringify p \<noteq> lastPayloadRef st
                        then onReadingCalls st @ [(serialNumber ev, p)] else onReadingCalls st
            | None \<Rightarrow> onReadingCalls st)"
  using assms
  by (simp add: onReadingEvent_def tryParseFromEvent_def emitIfChanged_def setTimeout_def
      parsedPayload_def Let_def split: outcome.splits option.splits)

text \<open>
  C2, as the code has it.  A reading event sets \<open>lastUpdateTs\<close> to the time of the read
  exactly when the event is parsed to a payload whose serialization differs from the last
  one emitted; a read that repeats the previous status, and a read that yields no
  payload, leave \<open>lastUpdateTs\<close> as it was.  The listener writes no other timestamp:
  \<open>lastDeepResetTs\<close> is unchanged, and the hook has no timestamp of the last read as such.
\<close>

theorem lastUpdateTs_follows_emitted_changes:
  "listenersAttached st \<longrightarrow>
     lastUpdateTsRef (onReadingEvent pf now ev st) =
       (case parsedPayload pf (Reading now ev) of
          Some p \<Rightarrow> if JSON_stringify p \<noteq> lastPayloadRef st then now else lastUpdateTsRef st
        | None \<Rightarrow> lastUpdateTsRef st)
     \<and> lastDeepResetTsRef (onReadingEvent pf now ev st) = lastDeepResetTsRef st"
  by (simp add: reading_lastUpdateTs reading_lastDeepResetTs)

lemma default_session_attached: "listenersAttached default_session"
  by code_simp

lemma first_work_reading:
  "listenersAttached (onReadingEvent plain_text_platform 1000 work_reading default_session)"
  "lastUpdateTsRef (onReadingEvent plain_text_platform 1000 work_reading default_session) = 1000"
  "parsedPayload plain_text_platform (Reading 2000 work_reading)
     = Some (Status ((status_of PH_R_WORK)
               \<lparr>stepsRemaining := Some 128, progress := Some 52, stepsTotal := Some 255\<rparr>))"
  "JSON_stringify (Status ((status_of PH_R_WORK)
               \<lparr>stepsRemaining := Some 128, progress := Some 52, stepsTotal := Some 255\<rparr>))
     = lastPayloadRef (onReadingEvent plain_text_platform 1000 work_reading default_session)"
  by code_simp+

theorem lastUpdateTs_follows_emitted_changes_witness:
  "listenersAttached (onReadingEvent plain_text_platform 1000 work_reading default_session)
   \<and> lastUpdateTsRef
        (onReadingEvent plain_text_platform 2000 work_reading
           (onReadingEvent plain_text_platform 1000 work_reading default_session)) = 1000"
  using lastUpdateTs_follows_emitted_changes
          [of "onReadingEvent plain_text_platform 1000 work_reading default_session"
              plain_text_platform 2000 work_reading]
  by (simp add: first_work_reading)

text \<open>
  The claim as the specification states it fails when the tag repeats a status: the
  second of two equal reads, at time 2000, leaves \<open>lastUpdateTs\<close> at 1000, and the
  consumer was called once.
\<close>

theorem repeated_read_leaves_lastUpdateTs:
  "lastUpdateTsRef
     (run plain_text_platform [Reading 1000 work_reading, Reading 2000 work_reading]
        default_session) = 1000
   \<and> lastUpdateTsRef
     (run plain_text_platform [Reading 1000 work_reading, Reading 2000 work_reading]
        default_session) \<noteq> 2000
   \<and> length (onReadingCalls
        (run plain_text_platform [Reading 1000 work_reading, Reading 2000 work_reading]
           default_session)) = 1"
proof -
  have "lastUpdateTsRef
     (run plain_text_platform [Reading 1000 work_reading, Reading 2000 work_reading]
        default_session) = 1000"
    "length (onReadingCalls
        (run plain_text_platform [Reading 1000 work_reading, Reading 2000 work_reading]
           default_session)) = 1"
    by code_simp+
  then show ?thesis by simp
qed

section \<open>Overlapping restarts\<close>

lemma deepReset_unguarded:
  "restartsInFlight (deepReset st) = Suc (restartsInFlight st)"
  "restartingRef (deepReset st) = restartingRef st"
  by (simp_all add: deepReset_def abortController_def restartsInFlight_def is_restart_def Let_def
      split: option.splits)

lemma rescanNow_unaware:
  "isSupported st \<Longrightarrow> \<not> restartingRef st
     \<Longrightarrow> restartsInFlight (rescanNow st) = Suc (restartsInFlight st)"
  by (simp add: rescanNow_def doScan_def abortController_def restartsInFlight_def is_restart_def
      Let_def split: option.splits)

text \<open>
  C3.  \<open>rescanNow\<close> returns at once while \<open>restartingRef\<close> is set, but \<open>deepReset\<close> neither
  tests nor sets the flag: whatever is in flight, a call of \<open>deepReset\<close> adds one restart
  and leaves the flag as it was.  In a session with the default options that reads no tag,
  the ticks at 1000 to 4000 run their light rescans to the end; the tick at 5000 finds the
  session stale and starts a deep reset, which pauses for 1800 ms; the tick at 6000 finds
  it stale still and starts a second deep reset while the first is suspended.
\<close>

theorem deep_resets_overlap:
  "restartsInFlight (deepReset st) = Suc (restartsInFlight st)
   \<and> restartingRef (deepReset st) = restartingRef st
   \<and> restartsInFlight (run plain_text_platform quiet_ticks default_session) = 0
   \<and> restartsInFlight
        (run plain_text_platform (quiet_ticks @ [IntervalTick 5000]) default_session) = 1
   \<and> tasks (run plain_text_platform (quiet_ticks @ [IntervalTick 5000, IntervalTick 6000])
              default_session)
       = [DeepPause 1800, DeepPause 1800]
   \<and> restartsInFlight
        (run plain_text_platform (quiet_ticks @ [IntervalTick 5000, IntervalTick 6000])
           default_session) = 2"
proof -
  have "restartsInFlight (run plain_text_platform quiet_ticks default_session) = 0"
    "restartsInFlight
        (run plain_text_platform (quiet_ticks @ [IntervalTick 5000]) default_session) = 1"
    "tasks (run plain_text_platform (quiet_ticks @ [IntervalTick 5000, IntervalTick 6000])
              default_session)
       = [DeepPause 1800, DeepPause 1800]"
    "restartsInFlight
        (run plain_text_platform (quiet_ticks @ [IntervalTick 5000, IntervalTick 6000])
           default_session) = 2"
    by code_simp+
  then show ?thesis by (simp add: deepReset_unguarded)
qed

section \<open>The first read of a session\<close>

lemmas hook_defs = startScan_def startSingleRead_def doScan_def doScan_threw_def
  doScan_returned_def doScan_afterSleep_def doScan_afterScan_def rescanNow_def deepReset_def
  stopScan_def stopPolling_def abortController_def setTimeout_def clearTimeout_def
  intervalTick_def timerFires_def resume_def

lemma step_keeps_lastPayload:
  assumes "lastPayloadRef st = []" "parsedPayload pf e = None"
  shows "lastPayloadRef (step pf e st) = []"
proof (cases e)
  case (Reading now ev)
  with assms show ?thesis
    by (auto simp: step_def onReadingEvent_def tryParseFromEvent_def emitIfChanged_def
        setTimeout_def parsedPayload_def Let_def split: outcome.splits option.splits if_splits)
next
  case (Resume i res now)
  with assms show ?thesis
    by (auto simp: step_def hook_defs Let_def
        split: task.splits kont.splits scan_result.splits option.splits)
qed (use assms in \<open>auto simp: step_def hook_defs Let_def split: option.splits timer.splits kont.splits\<close>)

lemma step_keeps_listeners:
  assumes "listenersAttached st"
  shows "listenersAttached (step pf e st)"
proof (cases e)
  case (Reading now ev)
  with assms show ?thesis
    by (auto simp: step_def onReadingEvent_def tryParseFromEvent_def emitIfChanged_def
        setTimeout_def Let_def split: outcome.splits option.splits if_splits)
next
  case (Resume i res now)
  with assms show ?thesis
    by (auto simp: step_def hook_defs Let_def
        split: task.splits kont.splits scan_result.splits option.splits)
qed (use assms in \<open>auto simp: step_def hook_defs Let_def split: option.splits timer.splits kont.splits\<close>)

lemma run_Nil: "run pf [] st = st"
  by (simp add: run_def)

lemma run_Cons: "run pf (e # es) st = run pf es (step pf e st)"
  by (simp add: run_def)

lemma run_keeps_fresh:
  assumes "\<forall>e\<in>set es. parsedPayload pf e = None"
  shows "lastPayloadRef st = [] \<and> listenersAttached st
           \<Longrightarrow> lastPayloadRef (run pf es st) = [] \<and> listenersAttached (run pf es st)"
  using assms
proof (induction es arbitrary: st)
  case Nil
  then show ?case by (simp add: run_Nil)
next
  case (Cons e es)
  then have "lastPayloadRef (step pf e st) = [] \<and> listenersAttached (step pf e st)"
    by (simp add: step_keeps_lastPayload step_keeps_listeners)
  with Cons show ?case by (simp add: run_Cons)
qed

lemma start_clears:
  "lastPayloadRef (startScan opts st) = []" "lastHashRef (startScan opts st) = []"
  "lastPayloadRef (startSingleRead timeoutMs st) = []"
  "lastHashRef (startSingleRead timeoutMs st) = []"
  by (simp_all add: hook_defs Let_def split: option.splits)

lemma start_attaches:
  "isSupported st \<Longrightarrow> listenersAttached (startScan opts st)"
  "isSupported st \<Longrightarrow> listenersAttached (startSingleRead timeoutMs st)"
  by (simp_all add: hook_defs Let_def split: option.splits)

text \<open>
  C10.  \<open>startScan\<close> and \<open>startSingleRead\<close> clear the stored serialization of the last
  payload and the hash of the record shapes before the scan begins.  Hence, whatever the
  hook emitted before, the first reading event of the new session that is parsed to a
  payload calls \<open>onReading\<close> with it: in any run that begins with one of the two calls and
  goes on with events none of which is a parsed read, the next parsed read appends its
  tag and payload to the calls of the consumer.
\<close>

theorem first_parsed_read_is_emitted:
  "lastPayloadRef (startScan opts st) = [] \<and> lastHashRef (startScan opts st) = []
   \<and> lastPayloadRef (startSingleRead timeoutMs st) = []
   \<and> lastHashRef (startSingleRead timeoutMs st) = []
   \<and> (isSupported st
        \<and> (start = CallStartScan opts \<or> start = CallStartSingleRead timeoutMs)
        \<and> (\<forall>e\<in>set es. parsedPayload pf e = None)
        \<and> parsedPayload pf (Reading now ev) = Some p
       \<longrightarrow> onReadingCalls (step pf (Reading now ev) (run pf (start # es) st))
             = onReadingCalls (run pf (start # es) st) @ [(serialNumber ev, p)])"
proof (intro conjI impI)
  assume a: "isSupported st
        \<and> (start = CallStartScan opts \<or> start = CallStartSingleRead timeoutMs)
        \<and> (\<forall>e\<in>set es. parsedPayload pf e = None)
        \<and> parsedPayload pf (Reading now ev) = Some p"
  then have "lastPayloadRef (step pf start st) = [] \<and> listenersAttached (step pf start st)"
    by (auto simp: step_def start_clears start_attaches)
  with a have f: "lastPayloadRef (run pf (start # es) st) = []
      \<and> listenersAttached (run pf (start # es) st)"
    using run_keeps_fresh [of es pf "step pf start st"] by (simp add: run_Cons)
  with a show "onReadingCalls (step pf (Reading now ev) (run pf (start # es) st))
             = onReadingCalls (run pf (start # es) st) @ [(serialNumber ev, p)]"
    by (simp add: step_def reading_emits JSON_stringify_nonempty)
qed (simp_all add: start_clears)

lemma previous_session:
  "isSupported (onReadingEvent plain_text_platform 1000 work_reading default_session)"
  "lastPayloadRef (onReadingEvent plain_text_platform 1000 work_reading default_session) \<noteq> []"
  "onReadingCalls
     (run plain_text_platform [CallStartScan None, Resume 0 ScanStarted 3000, Resume 0 ScanStarted 3050]
        (onReadingEvent plain_text_platform 1000 work_reading default_session))
     = [(Some ''04:a2:19:6c'', Status ((status_of PH_R_WORK)
               \<lparr>stepsRemaining := Some 128, progress := Some 52, stepsTotal := Some 255\<rparr>))]"
  by code_simp+

theorem first_parsed_read_is_emitted_witness:
  "isSupported (onReadingEvent plain_text_platform 1000 work_reading default_session)
   \<and> lastPayloadRef (onReadingEvent plain_text_platform 1000 work_reading default_session) \<noteq> []
   \<and> onReadingCalls
       (step plain_text_platform (Reading 4000 work_reading)
          (run plain_text_platform
             [CallStartScan None, Resume 0 ScanStarted 3000, Resume 0 ScanStarted 3050]
             (onReadingEvent plain_text_platform 1000 work_reading default_session)))
       = [(Some ''04:a2:19:6c'', Status ((status_of PH_R_WORK)
               \<lparr>stepsRemaining := Some 128, progress := Some 52, stepsTotal := Some 255\<rparr>)),
          (Some ''04:a2:19:6c'', Status ((status_of PH_R_WORK)
               \<lparr>stepsRemaining := Some 128, progress := Some 52, stepsTotal := Some 255\<rparr>))]"
proof -
  have e: "\<forall>e\<in>set [Resume 0 ScanStarted 3000, Resume 0 ScanStarted 3050].
             parsedPayload plain_text_platform e = None"
    by (simp add: parsedPayload_def)
  have p: "parsedPayload plain_text_platform (Reading 4000 work_reading)
     = Some (Status ((status_of PH_R_WORK)
               \<lparr>stepsRemaining := Some 128, progress := Some 52, stepsTotal := Some 255\<rparr>))"
    by code_simp
  have n: "serialNumber work_reading = Some ''04:a2:19:6c''"
    by (simp add: work_reading_def)
  from first_parsed_read_is_emitted
         [of None "onReadingEvent plain_text_platform 1000 work_reading default_session"
             None "CallStartScan None" "[Resume 0 ScanStarted 3000, Resume 0 ScanStarted 3050]"
             plain_text_platform 4000 work_reading]
       e p previous_session(1)
  have "onReadingCalls
       (step plain_text_platform (Reading 4000 work_reading)
          (run plain_text_platform
             [CallStartScan None, Resume 0 ScanStarted 3000, Resume 0 ScanStarted 3050]
             (onReadingEvent plain_text_platform 1000 work_reading default_session)))
       = onReadingCalls
          (run plain_text_platform
             [CallStartScan None, Resume 0 ScanStarted 3000, Resume 0 ScanStarted 3050]
             (onReadingEvent plain_text_platform 1000 work_reading default_session))
         @ [(serialNumber work_reading, Status ((status_of PH_R_WORK)
               \<lparr>stepsRemaining := Some 128, progress := Some 52, stepsTotal := Some 255\<rparr>))]"
    by blast
  then show ?thesis
    by (simp only: previous_session n) simp
qed

section \<open>Reachable states of the hook\<close>

lemma wellformed_initial: "wellformed (initial_hook b)"
  by (simp add: wellformed_def initial_hook_def)

lemma wellformed_step:
  assumes "wellformed st"
  shows "wellformed (step pf e st)"
proof (cases e)
  case (Reading now ev)
  with assms show ?thesis
    by (auto simp: wellformed_def step_def onReadingEvent_def tryParseFromEvent_def
        emitIfChanged_def setTimeout_def Let_def less_Suc_eq
        split: outcome.splits option.splits if_splits)
next
  case (Resume i res now)
  with assms show ?thesis
    by (auto simp: wellformed_def step_def hook_defs Let_def less_Suc_eq
        split: task.splits kont.splits scan_result.splits option.splits if_splits
        dest!: in_set_takeD in_set_dropD)
next
  case (TimerFires h)
  with assms show ?thesis
    by (auto simp: wellformed_def step_def hook_defs Let_def less_Suc_eq
        split: option.splits timer.splits if_splits)
qed (use assms in \<open>auto simp: wellformed_def step_def hook_defs Let_def less_Suc_eq
        split: option.splits if_splits\<close>)

lemma isSupported_step: "isSupported (step pf e st) = isSupported st"
proof (cases e)
  case (Reading now ev)
  then show ?thesis
    by (auto simp: step_def onReadingEvent_def tryParseFromEvent_def
        emitIfChanged_def setTimeout_def Let_def
        split: outcome.splits option.splits if_splits)
next
  case (Resume i res now)
  then show ?thesis
    by (auto simp: step_def hook_defs Let_def
        split: task.splits kont.splits scan_result.splits option.splits if_splits)
qed (auto simp: step_def hook_defs Let_def split: option.splits timer.splits if_splits)

lemma run_invariants:
  "wellformed st \<Longrightarrow> wellformed (run pf es st)"
  "isSupported (run pf es st) = isSupported st"
  by (induction es arbitrary: st) (simp_all add: run_def wellformed_step isSupported_step)

lemma reachable_facts:
  assumes "st = run pf es (initial_hook b)"
  shows "scanIntervalRef st \<noteq> None \<Longrightarrow> isSupported st"
    and "\<forall>t\<in>set (timers st). fst t < nextHandle st"
    and "isSupported st = b"
  using run_invariants(1) [OF wellformed_initial, of pf es b] run_invariants(2) [of pf es "initial_hook b"] assms
  by (auto simp: wellformed_def initial_hook_def)




section \<open>Deep reset of a stale session\<close>

lemma stale_tick_is_deepReset:
  "scanIntervalRef st \<noteq> None \<Longrightarrow> staleAfterRef st \<le> now - lastUpdateTsRef st
     \<Longrightarrow> intervalTick now st = deepReset st"
  by (auto simp: intervalTick_def Let_def)

lemma deepReset_effect:
  "tasks (deepReset st) = tasks st @ [DeepPause (deepPauseRef st)]"
  "controllerRef st = Some c \<Longrightarrow> c \<in> set (aborted (deepReset st))"
  "controllerRef (deepReset st) = controllerRef st"
  "nextHandle (deepReset st) = nextHandle st"
  "isSupported (deepReset st) = isSupported st"
  by (simp_all add: deepReset_def abortController_def Let_def split: option.splits)

lemma resume_last:
  "resume (length ts) res now (st\<lparr>tasks := ts @ [t]\<rparr>) =
     (case t of
        Sleep50 k \<Rightarrow> doScan_afterSleep k (st\<lparr>tasks := ts\<rparr>)
      | ScanCall k \<Rightarrow> doScan_afterScan k res now (st\<lparr>tasks := ts\<rparr>)
      | DeepPause ms \<Rightarrow> doScan KDeepReset (st\<lparr>tasks := ts\<rparr>))"
  by (simp add: resume_def Let_def)

lemma deep_reset_runs:
  assumes sup: "isSupported st"
    and ok: "\<forall>e. res = ScanRejected e \<longrightarrow> exn_name e \<noteq> ''NotAllowedError''"
  shows "tasks (resume (length (tasks st)) r1 t1 (deepReset st)) = tasks st @ [Sleep50 KDeepReset]"
    and "controllerRef (resume (length (tasks st)) r2 t2 (resume (length (tasks st)) r1 t1 (deepReset st)))
           = Some (nextHandle st)"
    and "tasks (resume (length (tasks st)) r2 t2 (resume (length (tasks st)) r1 t1 (deepReset st)))
           = tasks st @ [ScanCall KDeepReset]"
    and "lastDeepResetTsRef
           (resume (length (tasks st)) res t3
              (resume (length (tasks st)) r2 t2 (resume (length (tasks st)) r1 t1 (deepReset st)))) = t3"
    and "tasks
           (resume (length (tasks st)) res t3
              (resume (length (tasks st)) r2 t2 (resume (length (tasks st)) r1 t1 (deepReset st)))) = tasks st"
proof -
  let ?i = "length (tasks st)"
  have 1: "resume ?i r1 t1 (deepReset st)
      = (abortController (abortController st))\<lparr>listenersAttached := True, tasks := tasks st @ [Sleep50 KDeepReset]\<rparr>"
    using sup
    by (simp add: resume_def deepReset_def doScan_def abortController_def Let_def split: option.splits)
  show "tasks (resume ?i r1 t1 (deepReset st)) = tasks st @ [Sleep50 KDeepReset]"
    unfolding 1 by simp
  have 2: "resume ?i r2 t2 (resume ?i r1 t1 (deepReset st))
      = (abortController (abortController st))\<lparr>listenersAttached := True, controllerRef := Some (nextHandle st),
           nextHandle := Suc (nextHandle st), tasks := tasks st @ [ScanCall KDeepReset]\<rparr>"
    unfolding 1
    by (simp add: resume_def doScan_afterSleep_def abortController_def Let_def split: option.splits)
  show "controllerRef (resume ?i r2 t2 (resume ?i r1 t1 (deepReset st))) = Some (nextHandle st)"
    "tasks (resume ?i r2 t2 (resume ?i r1 t1 (deepReset st))) = tasks st @ [ScanCall KDeepReset]"
    unfolding 2 by simp_all
  have 3: "resume ?i res t3 (resume ?i r2 t2 (resume ?i r1 t1 (deepReset st)))
      = doScan_returned KDeepReset t3
          ((abortController (abortController st))\<lparr>listenersAttached := True, controllerRef := Some (nextHandle st),
           nextHandle := Suc (nextHandle st), tasks := tasks st\<rparr>)"
    unfolding 2 using ok
    by (simp add: resume_def doScan_afterScan_def abortController_def Let_def
        split: option.splits scan_result.splits)
  show "lastDeepResetTsRef (resume ?i res t3 (resume ?i r2 t2 (resume ?i r1 t1 (deepReset st)))) = t3"
    "tasks (resume ?i res t3 (resume ?i r2 t2 (resume ?i r1 t1 (deepReset st)))) = tasks st"
    unfolding 3 by (simp_all add: doScan_returned_def abortController_def split: option.splits)
qed

text \<open>
  C7.  In a state that the hook can reach, with a continuous session running (the interval
  is set) whose last status-changing read, or whose start, lies at least \<open>staleAfterMs\<close>
  back, the tick calls \<open>deepReset\<close>, whether or not
  \<open>deepResetEveryMs\<close> has elapsed: the current scan is aborted, the operation pauses for
  \<open>deepPauseMs\<close>, then \<open>doScan\<close> starts a scan with a new controller, and when \<open>doScan\<close>
  has returned (the scan started, or was rejected with anything but \<open>NotAllowedError\<close>)
  \<open>lastDeepResetTs\<close> is set to the time of that moment.
\<close>

theorem stale_tick_performs_deep_reset:
  "st = run pf es (initial_hook b) \<and> scanIntervalRef st \<noteq> None
   \<and> staleAfterRef st \<le> now - lastUpdateTsRef st
   \<and> (\<forall>e. res = ScanRejected e \<longrightarrow> exn_name e \<noteq> ''NotAllowedError'')
   \<longrightarrow>
     (let i = length (tasks st);
          paused = intervalTick now st;
          slept = resume i r1 t1 paused;
          scanning = resume i r2 t2 slept;
          ended = resume i res t3 scanning
      in paused = deepReset st
         \<and> (\<forall>c. controllerRef st = Some c \<longrightarrow> c \<in> set (aborted paused))
         \<and> tasks paused = tasks st @ [DeepPause (deepPauseRef st)]
         \<and> tasks slept = tasks st @ [Sleep50 KDeepReset]
         \<and> controllerRef scanning = Some (nextHandle st)
         \<and> tasks scanning = tasks st @ [ScanCall KDeepReset]
         \<and> lastDeepResetTsRef ended = t3
         \<and> tasks ended = tasks st)"
proof (intro impI)
  assume a: "st = run pf es (initial_hook b) \<and> scanIntervalRef st \<noteq> None
   \<and> staleAfterRef st \<le> now - lastUpdateTsRef st
   \<and> (\<forall>e. res = ScanRejected e \<longrightarrow> exn_name e \<noteq> ''NotAllowedError'')"
  then have i: "scanIntervalRef st \<noteq> None"
    and stale: "staleAfterRef st \<le> now - lastUpdateTsRef st"
    and ok: "\<forall>e. res = ScanRejected e \<longrightarrow> exn_name e \<noteq> ''NotAllowedError''"
    by blast+
  from a have "st = run pf es (initial_hook b)" by blast
  from reachable_facts(1) [OF this i] have sup: "isSupported st" .
  from i stale have p: "intervalTick now st = deepReset st"
    by (rule stale_tick_is_deepReset)
  show "let i = length (tasks st);
          paused = intervalTick now st;
          slept = resume i r1 t1 paused;
          scanning = resume i r2 t2 slept;
          ended = resume i res t3 scanning
      in paused = deepReset st
         \<and> (\<forall>c. controllerRef st = Some c \<longrightarrow> c \<in> set (aborted paused))
         \<and> tasks paused = tasks st @ [DeepPause (deepPauseRef st)]
         \<and> tasks slept = tasks st @ [Sleep50 KDeepReset]
         \<and> controllerRef scanning = Some (nextHandle st)
         \<and> tasks scanning = tasks st @ [ScanCall KDeepReset]
         \<and> lastDeepResetTsRef ended = t3
         \<and> tasks ended = tasks st"
    unfolding Let_def p
    by (simp add: deep_reset_runs [OF sup ok] deepReset_effect(1,2))
qed

lemma default_session_facts:
  "scanIntervalRef default_session \<noteq> None" "isSupported default_session"
  "staleAfterRef default_session = 5000" "lastUpdateTsRef default_session = 0"
  "deepEveryRef default_session = 10000" "lastDeepResetTsRef default_session = 0"
  "tasks default_session = []"
  by code_simp+

theorem stale_tick_performs_deep_reset_witness:
  "staleAfterRef default_session \<le> 5000 - lastUpdateTsRef default_session
   \<and> \<not> deepEveryRef default_session \<le> 5000 - lastDeepResetTsRef default_session
   \<and> intervalTick 5000 default_session = deepReset default_session
   \<and> lastDeepResetTsRef
        (resume 0 ScanStarted 6900
           (resume 0 ScanStarted 6850
              (resume 0 ScanStarted 6800 (intervalTick 5000 default_session)))) = 6900"
proof -
  have h: "default_session
       = run plain_text_platform
           [CallStartScan None, Resume 0 ScanStarted 0, Resume 0 ScanStarted 0] (initial_hook True)
     \<and> scanIntervalRef default_session \<noteq> None
     \<and> staleAfterRef default_session \<le> 5000 - lastUpdateTsRef default_session
     \<and> (\<forall>e. ScanStarted = ScanRejected e \<longrightarrow> exn_name e \<noteq> ''NotAllowedError'')"
    by (simp add: default_session_facts) (simp add: default_session_def)
  from stale_tick_performs_deep_reset
         [of default_session plain_text_platform
             "[CallStartScan None, Resume 0 ScanStarted 0, Resume 0 ScanStarted 0]" True
             5000 ScanStarted ScanStarted 6800 ScanStarted 6850 6900] h
  have "let i = length (tasks default_session);
          paused = intervalTick 5000 default_session;
          slept = resume i ScanStarted 6800 paused;
          scanning = resume i ScanStarted 6850 slept;
          ended = resume i ScanStarted 6900 scanning
      in paused = deepReset default_session
         \<and> (\<forall>c. controllerRef default_session = Some c \<longrightarrow> c \<in> set (aborted paused))
         \<and> tasks paused = tasks default_session @ [DeepPause (deepPauseRef default_session)]
         \<and> tasks slept = tasks default_session @ [Sleep50 KDeepReset]
         \<and> controllerRef scanning = Some (nextHandle default_session)
         \<and> tasks scanning = tasks default_session @ [ScanCall KDeepReset]
         \<and> lastDeepResetTsRef ended = 6900
         \<and> tasks ended = tasks default_session"
    by (rule mp)
  then show ?thesis
    unfolding Let_def by (auto simp: default_session_facts)
qed

section \<open>The single read and its timeout\<close>












section \<open>The power cycling\<close>

lemma stopPowerCycling_fields:
  "cycleCount (stopPowerCycling st) = cycleCount st"
  "error_app (stopPowerCycling st) = error_app st"
  "powerCycleIntervalRef (stopPowerCycling st) = None"
  "\<not> isScanning (stopPowerCycling st)"
  "cyclesExecuted (stopPowerCycling st) = cyclesExecuted st"
  by (simp_all add: stopPowerCycling_def act_def cyclesExecuted_def Let_def
      split: option.splits cycle_handle.splits)

lemma doCycle_count:
  "cycleCount (snd (doCycle env st)) \<le> max maxCycles (cycleCount st)"
  "fst (doCycle env st) \<Longrightarrow> cycleCount (snd (doCycle env st)) \<le> maxCycles"
  by (auto simp: doCycle_def stopPowerCycling_fields act_def Let_def stopPowerCycling_def
      split: option.splits cycle_handle.splits)

lemma runCycles_bound:
  "cycleCount st \<le> maxCycles \<Longrightarrow> cycleCount (runCycles env st) \<le> maxCycles"
proof (induction env st rule: runCycles.induct)
  case (1 env st)
  obtain c st1 where d: "doCycle (env (cycleCount st)) st = (c, st1)" by (cases "doCycle (env (cycleCount st)) st")
  from doCycle_count [of "env (cycleCount st)" st] d "1.prems"
  have b: "cycleCount st1 \<le> maxCycles" by simp
  show ?case
  proof (cases "statusAtStart (env (cycleCount st)) \<noteq> Computing")
    case True
    with "1.prems" show ?thesis
      by (subst runCycles.simps) (simp add: stopPowerCycling_fields)
  next
    case False
    show ?thesis
    proof (cases "c \<and> shouldContinue st1 \<and> statusAtEnd (env (cycleCount st)) = Computing
                   \<and> \<not> stopInGap (env (cycleCount st))")
      case True
      let ?st2 = "(act [Wait 100] st1)\<lparr>powerCycleIntervalRef := Some NextCycleTimer\<rparr>"
      have "cycleCount (runCycles env ?st2) \<le> maxCycles"
        using "1.IH" [OF False d [symmetric] _ refl] True b
        by (simp add: act_def)
      with False True d show ?thesis
        by (subst runCycles.simps) (simp add: Let_def)
    next
      case F: False
      with False d b show ?thesis
        by (subst runCycles.simps) (auto simp: Let_def stopPowerCycling_fields act_def)
    qed
  qed
qed

lemma steady_run:
  assumes "steady env"
  shows "shouldContinue st \<Longrightarrow> cycleCount st \<le> maxCycles \<Longrightarrow>
     cycleCount (runCycles env st) = maxCycles
     \<and> cyclesExecuted (runCycles env st) = cyclesExecuted st + (maxCycles - cycleCount st)
     \<and> error_app (runCycles env st) = ''Computation timeout''
     \<and> powerCycleIntervalRef (runCycles env st) = None
     \<and> \<not> isScanning (runCycles env st)"
proof (induction "maxCycles - cycleCount st" arbitrary: st)
  case 0
  then have c: "cycleCount st = maxCycles" by simp
  from assms have e: "statusAtStart (env maxCycles) = Computing" by (simp add: steady_def)
  have r: "runCycles env st
      = stopPowerCycling ((stopPowerCycling st)\<lparr>error_app := ''Computation timeout''\<rparr>)"
    by (subst runCycles.simps) (simp add: e c doCycle_def)
  have "cyclesExecuted ((stopPowerCycling st)\<lparr>error_app := ''Computation timeout''\<rparr>)
      = cyclesExecuted st"
    using stopPowerCycling_fields(5) [of st] by (simp add: cyclesExecuted_def)
  then show ?case
    unfolding r by (simp add: stopPowerCycling_fields c)
next
  case (Suc k)
  then have lt: "cycleCount st < maxCycles" by simp
  from assms have e: "statusAtStart (env (cycleCount st)) = Computing"
    "statusAtEnd (env (cycleCount st)) = Computing" "\<not> stopInCycle (env (cycleCount st))"
    "\<not> stopInGap (env (cycleCount st))" "firstScan (env (cycleCount st)) = None"
    "secondScan (env (cycleCount st)) = None"
    by (simp_all add: steady_def)
  define st1 where "st1 = snd (doCycle (env (cycleCount st)) st)"
  have d: "doCycle (env (cycleCount st)) st = (True, st1)"
    and f: "cycleCount st1 = cycleCount st + 1" "shouldContinue st1"
      "cyclesExecuted st1 = cyclesExecuted st + 1"
    using lt Suc.prems(1)
    by (simp_all add: st1_def doCycle_def e act_def Let_def cyclesExecuted_def)
  let ?st2 = "(act [Wait 100] st1)\<lparr>powerCycleIntervalRef := Some NextCycleTimer\<rparr>"
  have s2: "shouldContinue ?st2" "cycleCount ?st2 = cycleCount st + 1"
    "cyclesExecuted ?st2 = cyclesExecuted st + 1"
    using f by (simp_all add: act_def cyclesExecuted_def)
  have r: "runCycles env st = runCycles env ?st2"
    by (subst runCycles.simps) (simp add: e d f Let_def)
  have "k = maxCycles - cycleCount ?st2" using Suc.hyps(2) s2 by simp
  from Suc.hyps(1) [OF this s2(1)] lt s2
  show ?case unfolding r by simp
qed

text \<open>
  C5, as the code has it.  No run starts more than \<open>maxCycles\<close> cycles.  In a run in which
  the status stays \<open>computing\<close>, no cancellation is requested and every scan of every
  cycle starts, exactly \<open>maxCycles\<close> cycles are executed; the next call of \<open>doCycle\<close> then
  stops the power cycling and reports \<open>Computation timeout\<close>.
\<close>

theorem power_cycling_bounded:
  "cycleCount (startPowerCycling env app) \<le> maxCycles
   \<and> ((\<forall>n. statusAtStart (env n) = Computing \<and> statusAtEnd (env n) = Computing
            \<and> \<not> stopInCycle (env n) \<and> \<not> stopInGap (env n)
            \<and> firstScan (env n) = None \<and> secondScan (env n) = None)
       \<longrightarrow> cycleCount (startPowerCycling env app) = maxCycles
           \<and> cyclesExecuted (startPowerCycling env app) = cyclesExecuted app + maxCycles
           \<and> error_app (startPowerCycling env app) = ''Computation timeout''
           \<and> powerCycleIntervalRef (startPowerCycling env app) = None
           \<and> \<not> isScanning (startPowerCycling env app))"
proof (intro conjI impI)
  show "cycleCount (startPowerCycling env app) \<le> maxCycles"
    by (simp add: startPowerCycling_def runCycles_bound)
next
  assume "\<forall>n. statusAtStart (env n) = Computing \<and> statusAtEnd (env n) = Computing
            \<and> \<not> stopInCycle (env n) \<and> \<not> stopInGap (env n)
            \<and> firstScan (env n) = None \<and> secondScan (env n) = None"
  then have s: "steady env" by (simp add: steady_def)
  let ?st = "app\<lparr>cycleCount := 0, shouldContinue := True, powerCycleIntervalRef := Some StopObject\<rparr>"
  have "cyclesExecuted ?st = cyclesExecuted app" by (simp add: cyclesExecuted_def)
  with steady_run [OF s, of ?st]
  have r: "cycleCount (startPowerCycling env app) = maxCycles
     \<and> cyclesExecuted (startPowerCycling env app) = cyclesExecuted app + maxCycles
     \<and> error_app (startPowerCycling env app) = ''Computation timeout''
     \<and> powerCycleIntervalRef (startPowerCycling env app) = None
     \<and> \<not> isScanning (startPowerCycling env app)"
    by (simp add: startPowerCycling_def)
  from r show "cycleCount (startPowerCycling env app) = maxCycles" by simp
  from r show "cyclesExecuted (startPowerCycling env app) = cyclesExecuted app + maxCycles" by simp
  from r show "error_app (startPowerCycling env app) = ''Computation timeout''" by simp
  from r show "powerCycleIntervalRef (startPowerCycling env app) = None" by simp
  from r show "\<not> isScanning (startPowerCycling env app)" by simp
qed

theorem power_cycling_bounded_witness:
  "cycleCount (startPowerCycling steady_env initial_app) = 100
   \<and> cyclesExecuted (startPowerCycling steady_env initial_app) = 100
   \<and> error_app (startPowerCycling steady_env initial_app) = ''Computation timeout''"
proof -
  have h: "\<forall>n. statusAtStart (steady_env n) = Computing \<and> statusAtEnd (steady_env n) = Computing
            \<and> \<not> stopInCycle (steady_env n) \<and> \<not> stopInGap (steady_env n)
            \<and> firstScan (steady_env n) = None \<and> secondScan (steady_env n) = None"
    by (simp add: steady_env_def)
  have "cyclesExecuted initial_app = 0" by (simp add: cyclesExecuted_def initial_app_def)
  with power_cycling_bounded [of steady_env initial_app] h show ?thesis
    by (simp add: maxCycles_def)
qed

text \<open>
  The claim as the specification states it fails when a scan does not start: the status
  stays \<open>computing\<close> and nobody cancels, yet the first cycle ends the run, no compute
  window was held and no timeout is reported.
\<close>

theorem refused_scan_ends_power_cycling:
  "(\<forall>n. statusAtStart (refused_env n) = Computing \<and> statusAtEnd (refused_env n) = Computing
        \<and> \<not> stopInCycle (refused_env n) \<and> \<not> stopInGap (refused_env n))
   \<and> cycleCount (startPowerCycling refused_env initial_app) = 1
   \<and> cyclesExecuted (startPowerCycling refused_env initial_app) = 0
   \<and> error_app (startPowerCycling refused_env initial_app) = []
   \<and> error_app (startPowerCycling refused_env initial_app) \<noteq> ''Computation timeout''"
proof -
  have r: "startPowerCycling refused_env initial_app
      = stopPowerCycling
          (act [StartScan cycleOpts]
             (initial_app\<lparr>cycleCount := 1, shouldContinue := True,
                          powerCycleIntervalRef := Some StopObject, isFieldActive := True\<rparr>))"
    unfolding startPowerCycling_def
    by (subst runCycles.simps)
       (simp add: refused_env_def doCycle_def maxCycles_def initial_app_def act_def Let_def)
  show ?thesis
    unfolding r
    by (simp add: refused_env_def stopPowerCycling_fields act_def cyclesExecuted_def initial_app_def
        stopPowerCycling_def)
qed


end
